theory Spec2Isabelle
  imports Main
begin

text \<open>
  A shallow embedding of the CINN pattern fuser (\<^verbatim>\<open>ConvertToStmtPattern\<close>,
  \<^verbatim>\<open>MergePattern\<close>, \<^verbatim>\<open>GetLoopFramework\<close>, \<^verbatim>\<open>IsLoopFrameworkEqual\<close>,
  \<^verbatim>\<open>GetPaddingVector\<close>) and of the CPU unpool kernels (\<^verbatim>\<open>Unpool\<close>,
  \<^verbatim>\<open>Unpool3d\<close> and their dispatching kernels).
\<close>

section \<open>Errors and the external operator graph\<close>

text \<open>
  Every \<^verbatim>\<open>PADDLE_ENFORCE\<close>, \<^verbatim>\<open>PADDLE_ENFORCE_EQ\<close>, \<^verbatim>\<open>PADDLE_ENFORCE_LT\<close> and
  \<^verbatim>\<open>PADDLE_THROW\<close> of the source is a branch returning \<open>Inl\<close> of an error.
  A read or write outside a vector or buffer, which is undefined behaviour in C++,
  is the error \<open>OutOfRange\<close>, and a product of two \<^verbatim>\<open>int\<close> values outside the
  range of \<^verbatim>\<open>int\<close>, which is undefined behaviour too, is the error \<open>Overflow\<close>.
  \<open>and_then\<close> passes the first error on, as the exception would.
\<close>

datatype error =
    PreconditionNotMet string int
  | Unimplemented string
  | InvalidArgument string int int
  | EnforceFailed string
  | Thrown string
  | OutOfRange string
  | Overflow string

text \<open>
  Modelled from the spec: \<^verbatim>\<open>symbol::DimExpr\<close>, a symbolic dimension-size
  expression, is declared outside the given sources. Only equality of expressions and
  the comparison with the constant 1 are used, so an expression is an integer constant
  or a named symbol.
\<close>

definition and_then :: "error + 'a \<Rightarrow> ('a \<Rightarrow> error + 'b) \<Rightarrow> error + 'b" where
  "and_then r f = (case r of Inl e \<Rightarrow> Inl e | Inr v \<Rightarrow> f v)"

datatype DimExpr = DimInt int | DimSym string

type_synonym LoopExprs = "DimExpr list"


section \<open>The operator graph\<close>

text \<open>
  \<^verbatim>\<open>pir::Operation*\<close> and \<^verbatim>\<open>pir::Value\<close> are handles compared by identity.
\<close>

type_synonym Operation = nat
type_synonym Value = nat

text \<open>
  Modelled from the spec: the operation's intrinsic pattern kind
  (\<^verbatim>\<open>hlir::framework::OpPatternKind\<close>) is declared outside the given sources; it is
  reduction, elementwise, broadcast, injective, or another kind.
\<close>

datatype OpPatternKind =
  kElementWise | kBroadcast | kInjective | kReduction | kOutFusible | kNonFusible

text \<open>
  What the surrounding graph supplies (spec, external interfaces): the kind of an
  operation, its first result and the source of its first operand, the operations
  using a value, the operations downstream of an operation, the symbolic sizes of a
  value, and the reduced axes of a reduction. \<^verbatim>\<open>ReducePattern::GetReduceOp\<close> is
  declared outside the given sources as well and is a parameter: it picks the reduce
  operation from the op list of a pattern.
\<close>

record Graph =
  GetOpPatternKind :: "Operation \<Rightarrow> OpPatternKind"
  result0 :: "Operation \<Rightarrow> Value"
  operand0_source :: "Operation \<Rightarrow> Value"
  value_uses :: "Value \<Rightarrow> Operation list"
  FindDownstreamOps :: "Operation \<Rightarrow> Operation list"
  GetDimExprsFromValue :: "Value \<Rightarrow> LoopExprs"
  GetReduceAxisIdx :: "Operation \<Rightarrow> int list"
  reduce_op_of :: "Operation list \<Rightarrow> Operation"

section \<open>Vector helpers\<close>

text \<open>
  Modelled from the spec: the helpers of \<^verbatim>\<open>operator_fusion/utils.h\<close> are declared
  outside the given sources. \<^verbatim>\<open>UniqueConcatVector\<close> is the union in stable order
  keeping the first list; \<^verbatim>\<open>AnyFirstInSecond\<close> tests whether some element of the
  first list occurs in the second; \<^verbatim>\<open>FindUserOp\<close> keeps the users of a value that are
  among the candidates; \<^verbatim>\<open>GatherVector\<close> reads the entries at the given indices (an
  index outside the vector is a read out of range); \<^verbatim>\<open>ExcludeIndex n\<close> lists the
  indices below \<open>n\<close> that are not excluded.
\<close>

definition ConcatVector :: "'a list \<Rightarrow> 'a list \<Rightarrow> 'a list" where
  "ConcatVector first second = first @ second"

definition UniqueConcatVector :: "'a list \<Rightarrow> 'a list \<Rightarrow> 'a list" where
  "UniqueConcatVector first second = first @ filter (\<lambda>x. x \<notin> set first) second"

definition AnyFirstInSecond :: "'a list \<Rightarrow> 'a list \<Rightarrow> bool" where
  "AnyFirstInSecond first second = list_ex (\<lambda>x. x \<in> set second) first"

definition FindUserOp :: "Graph \<Rightarrow> Operation list \<Rightarrow> Value \<Rightarrow> Operation list" where
  "FindUserOp G candidates v = filter (\<lambda>u. u \<in> set candidates) (value_uses G v)"

fun GatherVector :: "'a list \<Rightarrow> int list \<Rightarrow> error + 'a list" where
  "GatherVector inp [] = Inr []"
| "GatherVector inp (i # gathers) =
     (if 0 \<le> i \<and> i < int (length inp)
      then (case GatherVector inp gathers of
              Inl e \<Rightarrow> Inl e
            | Inr rest \<Rightarrow> Inr (inp ! nat i # rest))
      else Inl (OutOfRange ''GatherVector''))"

definition ExcludeIndex :: "nat \<Rightarrow> nat list \<Rightarrow> nat list" where
  "ExcludeIndex n excludes = filter (\<lambda>i. i \<notin> set excludes) [0..<n]"

section \<open>Fusion tracker\<close>

text \<open>
  Modelled from the spec: \<^verbatim>\<open>FusionTracker\<close> and its instructions are declared
  outside the given sources. A tracker is an append-only log; a fresh tracker has no
  parents and no instructions, and the tracker of a merged pattern is a fresh node
  referencing the trackers of both parents. Pattern ids come from a process-wide
  counter outside the given sources; a pattern value here does not carry its id, and
  \<^verbatim>\<open>ConvertToStmtPattern\<close> receives the id that its constructor draws.
\<close>

datatype FusionInstr = InitPatternInstr Operation nat | ReturnInstr nat

datatype FusionTracker = FusionTracker "FusionTracker list" "FusionInstr list"

definition new_tracker :: FusionTracker where
  "new_tracker = FusionTracker [] []"

definition merge_tracker :: "FusionTracker \<Rightarrow> FusionTracker \<Rightarrow> FusionTracker" where
  "merge_tracker up down = FusionTracker [up, down] []"

fun append_instr :: "FusionTracker \<Rightarrow> FusionInstr \<Rightarrow> FusionTracker" where
  "append_instr (FusionTracker ps is) i = FusionTracker ps (is @ [i])"

fun instructions :: "FusionTracker \<Rightarrow> FusionInstr list" where
  "instructions (FusionTracker ps is) = is"

section \<open>Pattern variants\<close>

text \<open>
  Modelled from the spec: the pattern structs of \<^verbatim>\<open>operator_fusion/pattern.h\<close> are
  declared outside the given sources; their fields are those of the spec's data model
  and of the constructor calls in the source. A \<^verbatim>\<open>PaddingStmtPattern\<close> is a pair of
  a pattern and its padding positions.
\<close>

datatype TrivialPattern =
  TrivialPattern (t_ops: "Operation list") (sink_op: Operation) (t_tracker: FusionTracker)

datatype ReducePattern =
  ReducePattern (r_ops: "Operation list") (r_tracker: FusionTracker)

datatype UnsupportPattern =
  UnsupportPattern (u_ops: "Operation list") (u_tracker: FusionTracker)

datatype ReduceTreePattern =
  ReduceTreePattern (childs: "ReduceTreePattern list") (GetRootPattern: ReducePattern)
    (rt_tracker: FusionTracker)

datatype ReduceTreePlusTrivialPattern =
  ReduceTreePlusTrivialPattern (tree: ReduceTreePattern) (sink_trivial: TrivialPattern)
    (rtt_tracker: FusionTracker) (fake_reduce_iter_idx: "nat list")

datatype ItersPermutationPattern =
  ItersPermutationPattern (ip_ops: "Operation list") (ip_tracker: FusionTracker)
    (loop_dims: "LoopExprs \<times> bool list")

datatype StmtPattern =
    Reduce ReducePattern
  | Trivial TrivialPattern
  | Unsupport UnsupportPattern
  | ReduceTree ReduceTreePattern
  | ReduceTreePlusTrivial ReduceTreePlusTrivialPattern
  | HorizontalFusion "(StmtPattern \<times> int list) list" FusionTracker
  | ItersPermutation ItersPermutationPattern

type_synonym PaddingStmtPattern = "StmtPattern \<times> int list"

record PatternContent =
  content_op :: Operation

definition GetReduceOp :: "Graph \<Rightarrow> ReducePattern \<Rightarrow> Operation" where
  "GetReduceOp G p = reduce_op_of G (r_ops p)"

text \<open>
  Modelled from the spec: \<^verbatim>\<open>ops()\<close> of each variant and \<^verbatim>\<open>GetOpsInPattern\<close> are
  declared outside the given sources. The ops of a reduce tree are those of its root
  followed by those of its children, without repeating an op; the ops of a tree plus
  trivial are those of the tree and of the sink; the ops of a horizontal pattern are
  those of its members in order.
\<close>

fun rt_ops :: "ReduceTreePattern \<Rightarrow> Operation list" where
  "rt_ops (ReduceTreePattern cs r t) =
     fold (\<lambda>child result. UniqueConcatVector result (rt_ops child)) cs (r_ops r)"

definition rtt_ops :: "ReduceTreePlusTrivialPattern \<Rightarrow> Operation list" where
  "rtt_ops p = UniqueConcatVector (rt_ops (tree p)) (t_ops (sink_trivial p))"

fun GetOpsInPattern :: "StmtPattern \<Rightarrow> Operation list" where
  "GetOpsInPattern (Reduce p) = r_ops p"
| "GetOpsInPattern (Trivial p) = t_ops p"
| "GetOpsInPattern (Unsupport p) = u_ops p"
| "GetOpsInPattern (ReduceTree p) = rt_ops p"
| "GetOpsInPattern (ReduceTreePlusTrivial p) = rtt_ops p"
| "GetOpsInPattern (HorizontalFusion ms t) =
     concat (map (\<lambda>m. GetOpsInPattern (fst m)) ms)"
| "GetOpsInPattern (ItersPermutation p) = ip_ops p"

section \<open>ConvertToStmtPattern\<close>

definition ConvertToStmtPattern :: "Graph \<Rightarrow> nat \<Rightarrow> PatternContent \<Rightarrow> StmtPattern" where
  "ConvertToStmtPattern G fresh_id content =
     (let kind = GetOpPatternKind G (content_op content) in
      if kind = kReduction then
        Reduce (ReducePattern [content_op content]
          (append_instr new_tracker (InitPatternInstr (content_op content) fresh_id)))
      else if kind = kElementWise \<or> kind = kBroadcast \<or> kind = kInjective then
        Trivial (TrivialPattern [content_op content] (content_op content)
          (append_instr new_tracker (InitPatternInstr (content_op content) fresh_id)))
      else
        Unsupport (UnsupportPattern [content_op content]
          (append_instr new_tracker (InitPatternInstr (content_op content) fresh_id))))"

section \<open>Merging a trivial pattern into another pattern\<close>

definition MergePatternImpl_Trivial_Trivial ::
  "TrivialPattern \<Rightarrow> TrivialPattern \<Rightarrow> TrivialPattern" where
  "MergePatternImpl_Trivial_Trivial first second =
     TrivialPattern (UniqueConcatVector (t_ops first) (t_ops second)) (sink_op second)
       (merge_tracker (t_tracker first) (t_tracker second))"

definition MergePatternImpl_Trivial_Reduce ::
  "TrivialPattern \<Rightarrow> ReducePattern \<Rightarrow> ReducePattern" where
  "MergePatternImpl_Trivial_Reduce first second =
     ReducePattern (UniqueConcatVector (t_ops first) (r_ops second))
       (merge_tracker (t_tracker first) (r_tracker second))"

text \<open>
  The template \<^verbatim>\<open>FusePatternIfConnected<A, B>\<close>: the overload of
  \<^verbatim>\<open>MergePatternImpl\<close> chosen by the argument types and \<^verbatim>\<open>B::ops\<close> are passed as
  arguments. \<^verbatim>\<open>std::get<B>\<close> never fails, since each overload used returns the
  variant of its second argument.
\<close>

definition FusePatternIfConnected ::
  "('a \<Rightarrow> 'b \<Rightarrow> 'b) \<Rightarrow> ('b \<Rightarrow> Operation list) \<Rightarrow> 'a \<Rightarrow> 'b \<Rightarrow> Operation list \<Rightarrow> 'b" where
  "FusePatternIfConnected merge_impl ops_of up_pattern down_pattern connect_ops =
     (if AnyFirstInSecond connect_ops (ops_of down_pattern)
      then merge_impl up_pattern down_pattern
      else down_pattern)"

text \<open>
  \<^verbatim>\<open>MergePatternImpl(TrivialPattern, ReduceTreePattern)\<close> calls itself on the
  children through \<^verbatim>\<open>FusePatternIfConnected\<close>; in the recursion below the test of
  \<^verbatim>\<open>FusePatternIfConnected\<close> is written out for the children (lemma
  \<open>MergePatternImpl_Trivial_ReduceTree_unfold\<close> states it with the template).
\<close>

fun MergePatternImpl_Trivial_ReduceTree ::
  "Graph \<Rightarrow> TrivialPattern \<Rightarrow> ReduceTreePattern \<Rightarrow> ReduceTreePattern" where
  "MergePatternImpl_Trivial_ReduceTree G first (ReduceTreePattern old_childs root_p tr) =
     (let connect_ops = FindDownstreamOps G (sink_op first);
          new_childs = map (\<lambda>old_child.
              if AnyFirstInSecond connect_ops (rt_ops old_child)
              then MergePatternImpl_Trivial_ReduceTree G first old_child
              else old_child) old_childs
      in ReduceTreePattern new_childs
           (FusePatternIfConnected MergePatternImpl_Trivial_Reduce r_ops first root_p
              connect_ops)
           (merge_tracker (t_tracker first) tr))"

definition MergePatternImpl_Trivial_ReduceTreePlusTrivial ::
  "Graph \<Rightarrow> TrivialPattern \<Rightarrow> ReduceTreePlusTrivialPattern \<Rightarrow> ReduceTreePlusTrivialPattern"
  where
  "MergePatternImpl_Trivial_ReduceTreePlusTrivial G first second =
     (let connect_ops = FindDownstreamOps G (sink_op first) in
      ReduceTreePlusTrivialPattern
        (FusePatternIfConnected (MergePatternImpl_Trivial_ReduceTree G) rt_ops first
           (tree second) connect_ops)
        (FusePatternIfConnected MergePatternImpl_Trivial_Trivial t_ops first
           (sink_trivial second) connect_ops)
        (merge_tracker (t_tracker first) (rtt_tracker second))
        (fake_reduce_iter_idx second))"

definition MergePatternImpl_Trivial_ItersPermutation ::
  "TrivialPattern \<Rightarrow> ItersPermutationPattern \<Rightarrow> ItersPermutationPattern" where
  "MergePatternImpl_Trivial_ItersPermutation first second =
     ItersPermutationPattern (UniqueConcatVector (t_ops first) (ip_ops second))
       (merge_tracker (t_tracker first) (ip_tracker second)) (loop_dims second)"

section \<open>Merging reduce trees\<close>

definition is_direct_upstream :: "Graph \<Rightarrow> ReducePattern \<Rightarrow> ReducePattern \<Rightarrow> bool" where
  "is_direct_upstream G upstream downstream =
     (let upstream_result = result0 G (GetReduceOp G upstream);
          user_ops = FindUserOp G (r_ops downstream) upstream_result
      in user_ops \<noteq> [])"

text \<open>
  Modelled from the spec: \<^verbatim>\<open>ReduceTreePattern::InsertChild\<close> and
  \<^verbatim>\<open>ReduceTreePattern::childs\<close> are declared outside the given sources.
  \<^verbatim>\<open>InsertChild\<close> appends the child to the children of the node, and \<^verbatim>\<open>childs()\<close>
  on a tree that is not const gives the stored children themselves, so that an
  insertion into a child changes the tree.
\<close>

definition InsertChild :: "ReduceTreePattern \<Rightarrow> ReduceTreePattern \<Rightarrow> ReduceTreePattern" where
  "InsertChild node child =
     ReduceTreePattern (childs node @ [child]) (GetRootPattern node) (rt_tracker node)"

text \<open>
  \<^verbatim>\<open>InsertUpstreamIntoTree\<close> changes \<^verbatim>\<open>downstream\<close> through a reference and
  returns the number of insertions; here it returns that number with the changed
  tree. The loop over \<^verbatim>\<open>downstream.childs()\<close> visits every child in order, adds up
  the numbers and leaves each changed child in its place.
\<close>

fun InsertUpstreamIntoTree ::
  "Graph \<Rightarrow> ReduceTreePattern \<Rightarrow> ReduceTreePattern \<Rightarrow> int \<times> ReduceTreePattern" where
  "InsertUpstreamIntoTree G upstream (ReduceTreePattern cs root_p tr) =
     (if is_direct_upstream G (GetRootPattern upstream) root_p
      then (1, InsertChild (ReduceTreePattern cs root_p tr) upstream)
      else
        (let visited = fold (\<lambda>child acc.
               (let r = InsertUpstreamIntoTree G upstream child
                in (fst acc + fst r, snd acc @ [snd r]))) cs (0, [])
         in (fst visited, ReduceTreePattern (snd visited) root_p tr)))"

definition MergePatternImpl_ReduceTree_ReduceTree ::
  "Graph \<Rightarrow> ReduceTreePattern \<Rightarrow> ReduceTreePattern \<Rightarrow> error + ReduceTreePattern" where
  "MergePatternImpl_ReduceTree_ReduceTree G upstream downstream =
     (let result = ReduceTreePattern (childs downstream) (GetRootPattern downstream)
                     (merge_tracker (rt_tracker upstream) (rt_tracker downstream));
          inserted = InsertUpstreamIntoTree G upstream result;
          insert_num = fst inserted
      in if insert_num = 1 then Inr (snd inserted)
         else Inl (PreconditionNotMet ''Must insert only once, but insert %d'' insert_num))"

definition MergePatternImpl_ReduceTree_Trivial ::
  "ReduceTreePattern \<Rightarrow> TrivialPattern \<Rightarrow> ReduceTreePlusTrivialPattern" where
  "MergePatternImpl_ReduceTree_Trivial first second =
     ReduceTreePlusTrivialPattern first second
       (merge_tracker (rt_tracker first) (t_tracker second)) []"

section \<open>Loop frameworks\<close>

record MaybeLoopFramework =
  loop :: LoopExprs
  is_reduce :: "bool list"

text \<open>
  The loops below run an index \<open>i\<close> from 0 up to a size and read two vectors at
  \<open>i\<close>; they are written as recursion over the list of indices still to visit. A read
  at an index outside a vector is the error \<open>OutOfRange\<close>.
\<close>

fun SqueezeLoopFramework_loop ::
  "MaybeLoopFramework \<Rightarrow> nat list \<Rightarrow> MaybeLoopFramework \<Rightarrow> error + MaybeLoopFramework" where
  "SqueezeLoopFramework_loop input [] result = Inr result"
| "SqueezeLoopFramework_loop input (i # rest) result =
     (if loop input ! i = DimInt 1 then SqueezeLoopFramework_loop input rest result
      else if i < length (is_reduce input) then
        SqueezeLoopFramework_loop input rest
          \<lparr>loop = loop result @ [loop input ! i],
           is_reduce = is_reduce result @ [is_reduce input ! i]\<rparr>
      else Inl (OutOfRange ''input.is_reduce[i]''))"

definition SqueezeLoopFramework :: "MaybeLoopFramework \<Rightarrow> error + MaybeLoopFramework" where
  "SqueezeLoopFramework input =
     SqueezeLoopFramework_loop input [0..<length (loop input)] \<lparr>loop = [], is_reduce = []\<rparr>"

fun SplitReduceLoop_loop ::
  "MaybeLoopFramework \<Rightarrow> nat list \<Rightarrow> LoopExprs \<times> LoopExprs \<Rightarrow> error + (LoopExprs \<times> LoopExprs)"
  where
  "SplitReduceLoop_loop loops [] (non_reduce_loops, reduce_loops) =
     Inr (non_reduce_loops, reduce_loops)"
| "SplitReduceLoop_loop loops (i # rest) (non_reduce_loops, reduce_loops) =
     (if i < length (loop loops) then
        (if is_reduce loops ! i
         then SplitReduceLoop_loop loops rest
                (non_reduce_loops, reduce_loops @ [loop loops ! i])
         else SplitReduceLoop_loop loops rest
                (non_reduce_loops @ [loop loops ! i], reduce_loops))
      else Inl (OutOfRange ''loops.loop[i]''))"

definition SplitReduceLoop :: "MaybeLoopFramework \<Rightarrow> error + (LoopExprs \<times> LoopExprs)" where
  "SplitReduceLoop loops =
     SplitReduceLoop_loop loops [0..<length (is_reduce loops)] ([], [])"

definition CreateIsReduceVector :: "nat \<Rightarrow> nat \<Rightarrow> bool list" where
  "CreateIsReduceVector nums_flatten nums_reduce =
     ConcatVector (replicate nums_flatten False) (replicate nums_reduce True)"

fun get_reduce_loop_loop ::
  "MaybeLoopFramework \<Rightarrow> nat list \<Rightarrow> LoopExprs \<Rightarrow> error + LoopExprs" where
  "get_reduce_loop_loop lf [] reduce_loop = Inr reduce_loop"
| "get_reduce_loop_loop lf (i # rest) reduce_loop =
     (if is_reduce lf ! i then
        (if i < length (loop lf)
         then get_reduce_loop_loop lf rest (reduce_loop @ [loop lf ! i])
         else Inl (OutOfRange ''loop.loop[i]''))
      else get_reduce_loop_loop lf rest reduce_loop)"

definition get_reduce_loop :: "MaybeLoopFramework \<Rightarrow> error + LoopExprs" where
  "get_reduce_loop lf = get_reduce_loop_loop lf [0..<length (is_reduce lf)] []"

definition LoopFramework_Reduce :: "Graph \<Rightarrow> ReducePattern \<Rightarrow> error + MaybeLoopFramework" where
  "LoopFramework_Reduce G pattern =
     (let reduce_op = GetReduceOp G pattern;
          flatten_loops = GetDimExprsFromValue G (result0 G reduce_op);
          reduce_axes = GetReduceAxisIdx G reduce_op
      in case GatherVector (GetDimExprsFromValue G (operand0_source G reduce_op)) reduce_axes of
           Inl e \<Rightarrow> Inl e
         | Inr reduce_loops \<Rightarrow>
             Inr \<lparr>loop = ConcatVector flatten_loops reduce_loops,
                  is_reduce = CreateIsReduceVector (length flatten_loops)
                                (length reduce_loops)\<rparr>)"

definition LoopFramework_Trivial :: "Graph \<Rightarrow> TrivialPattern \<Rightarrow> MaybeLoopFramework" where
  "LoopFramework_Trivial G pattern =
     (let t_op = sink_op pattern;
          lp = GetDimExprsFromValue G (result0 G t_op)
      in \<lparr>loop = lp, is_reduce = replicate (length lp) False\<rparr>)"

definition LoopFramework_ReduceTreePlusTrivial ::
  "Graph \<Rightarrow> ReduceTreePlusTrivialPattern \<Rightarrow> error + MaybeLoopFramework" where
  "LoopFramework_ReduceTreePlusTrivial G pattern =
     (let trivial_loop0 = loop (LoopFramework_Trivial G (sink_trivial pattern)) in
      case (if fake_reduce_iter_idx pattern \<noteq> []
            then GatherVector trivial_loop0
                   (map int (ExcludeIndex (length trivial_loop0)
                      (fake_reduce_iter_idx pattern)))
            else Inr trivial_loop0) of
        Inl e \<Rightarrow> Inl e
      | Inr trivial_loop \<Rightarrow>
          (case LoopFramework_Reduce G (GetRootPattern (tree pattern)) of
             Inl e \<Rightarrow> Inl e
           | Inr root_loops \<Rightarrow>
               (case SplitReduceLoop root_loops of
                  Inl e \<Rightarrow> Inl e
                | Inr (unused, reduce_loop) \<Rightarrow>
                    Inr \<lparr>loop = ConcatVector trivial_loop reduce_loop,
                         is_reduce = CreateIsReduceVector (length trivial_loop)
                                       (length reduce_loop)\<rparr>)))"

text \<open>
  The horizontal case picks the base member (the last one, replaced by the first
  member that holds a \<^verbatim>\<open>ReducePattern\<close>), then fills a vector of
  \<open>base_loop.size() + padding_vector.size()\<close> unit dimensions at the positions that are
  not padding positions. \<^verbatim>\<open>padding_patterns_.back()\<close> of an empty vector is a read
  out of range.
\<close>

fun holds_ReducePattern :: "StmtPattern \<Rightarrow> bool" where
  "holds_ReducePattern (Reduce p) = True"
| "holds_ReducePattern _ = False"

definition base_pattern_of :: "PaddingStmtPattern list \<Rightarrow> PaddingStmtPattern" where
  "base_pattern_of ms =
     (case filter (\<lambda>m. holds_ReducePattern (fst m)) ms of
        [] \<Rightarrow> last ms
      | m # rest \<Rightarrow> m)"

fun fill_padded ::
  "int list \<Rightarrow> LoopExprs \<Rightarrow> bool list \<Rightarrow> nat list \<Rightarrow> LoopExprs \<times> bool list \<times> nat
     \<Rightarrow> error + (LoopExprs \<times> bool list \<times> nat)" where
  "fill_padded padding_vector base_loop base_is_reduce [] st = Inr st"
| "fill_padded padding_vector base_loop base_is_reduce (i # rest) (lp, isr, pointer) =
     (if int i \<notin> set padding_vector then
        (if pointer < length base_loop \<and> pointer < length base_is_reduce
         then fill_padded padding_vector base_loop base_is_reduce rest
                (lp[i := base_loop ! pointer], isr[i := base_is_reduce ! pointer],
                 pointer + 1)
         else Inl (OutOfRange ''base_loop[pointer]''))
      else fill_padded padding_vector base_loop base_is_reduce rest (lp, isr, pointer))"

definition pad_framework :: "MaybeLoopFramework \<Rightarrow> int list \<Rightarrow> error + MaybeLoopFramework" where
  "pad_framework base padding_vector =
     (let padded_size = length (loop base) + length padding_vector in
      case fill_padded padding_vector (loop base) (is_reduce base) [0..<padded_size]
             (replicate padded_size (DimInt 1), replicate padded_size False, 0) of
        Inl e \<Rightarrow> Inl e
      | Inr (lp, isr, pointer) \<Rightarrow> Inr \<lparr>loop = lp, is_reduce = isr\<rparr>)"

function GetLoopFramework :: "Graph \<Rightarrow> StmtPattern \<Rightarrow> error + MaybeLoopFramework" where
  "GetLoopFramework G (Reduce p) = LoopFramework_Reduce G p"
| "GetLoopFramework G (ReduceTree p) = LoopFramework_Reduce G (GetRootPattern p)"
| "GetLoopFramework G (Trivial p) = Inr (LoopFramework_Trivial G p)"
| "GetLoopFramework G (HorizontalFusion ms t) =
     (if ms = [] then Inl (OutOfRange ''padding_patterns_.back()'')
      else case GetLoopFramework G (fst (base_pattern_of ms)) of
             Inl e \<Rightarrow> Inl e
           | Inr base \<Rightarrow> pad_framework base (snd (base_pattern_of ms)))"
| "GetLoopFramework G (ReduceTreePlusTrivial p) = LoopFramework_ReduceTreePlusTrivial G p"
| "GetLoopFramework G (Unsupport p) = Inl (Unimplemented ''Unsupport for GetLoopRange.'')"
| "GetLoopFramework G (ItersPermutation p) =
     Inr \<lparr>loop = fst (loop_dims p), is_reduce = snd (loop_dims p)\<rparr>"
  by pat_completeness auto
termination
proof (relation "measure (\<lambda>(G, p). size p)")
  fix G :: Graph and ms :: "PaddingStmtPattern list" and t :: FusionTracker
  assume ne: "ms \<noteq> []"
  have m: "base_pattern_of ms \<in> set ms"
  proof (cases "filter (\<lambda>m. holds_ReducePattern (fst m)) ms")
    case Nil
    then show ?thesis using ne by (simp add: base_pattern_of_def)
  next
    case (Cons m rest)
    have "m \<in> set (filter (\<lambda>m. holds_ReducePattern (fst m)) ms)"
      unfolding Cons by simp
    then have "m \<in> set ms" by simp
    then show ?thesis using Cons by (simp add: base_pattern_of_def)
  qed
  then have "size_prod size (\<lambda>_. 0) (base_pattern_of ms)
               \<le> size_list (size_prod size (\<lambda>_. 0)) ms"
    by (rule size_list_estimation') simp
  moreover have "size (fst (base_pattern_of ms))
               \<le> size_prod size (\<lambda>_. 0) (base_pattern_of ms)"
    by (cases "base_pattern_of ms") simp
  ultimately show "((G, fst (base_pattern_of ms)), G, HorizontalFusion ms t)
                     \<in> measure (\<lambda>(G, p). size p)"
    by simp
qed simp

definition IsLoopFrameworkEqual :: "Graph \<Rightarrow> StmtPattern \<Rightarrow> StmtPattern \<Rightarrow> error + bool" where
  "IsLoopFrameworkEqual G lhs rhs =
     and_then (GetLoopFramework G lhs) (\<lambda>lhs_loops.
     and_then (GetLoopFramework G rhs) (\<lambda>rhs_loops.
     and_then (get_reduce_loop lhs_loops) (\<lambda>lhs_reduce_loop.
     and_then (get_reduce_loop rhs_loops) (\<lambda>rhs_reduce_loop.
       (let reduce_euqal = (if lhs_reduce_loop = [] \<or> rhs_reduce_loop = [] then True
                            else lhs_reduce_loop = rhs_reduce_loop) in
        and_then (SqueezeLoopFramework lhs_loops) (\<lambda>squeezed_lhs_loops.
        and_then (SqueezeLoopFramework rhs_loops) (\<lambda>squeezed_rhs_loops.
          (let loop_equal = (loop squeezed_lhs_loops = loop squeezed_rhs_loops)
           in Inr (loop_equal \<and> reduce_euqal)))))))))"

section \<open>GetPaddingVector\<close>

text \<open>
  The recursive lambda \<^verbatim>\<open>RecursivePadding(pf, ps, padding_size)\<close> captures
  \<^verbatim>\<open>first\<close>, \<^verbatim>\<open>second\<close> and the two result vectors by reference; here the
  result vectors are passed and returned. The lambda is entered at \<open>(0, 0, 0)\<close>
  only, so a pointer never passes the end of its vector; the first branch below covers
  the states the C++ code cannot reach.
\<close>

function RecursivePadding ::
  "LoopExprs \<Rightarrow> LoopExprs \<Rightarrow> nat \<Rightarrow> nat \<Rightarrow> int \<Rightarrow> int list \<times> int list
    \<Rightarrow> error + (int list \<times> int list)" where
  "RecursivePadding first second pf ps padding_size (padding_f, padding_s) =
     (if length first < pf \<or> length second < ps then Inl (OutOfRange ''RecursivePadding'')
      else if pf = length first \<and> ps = length second then Inr (padding_f, padding_s)
      else if pf = length first then
        (if second ! ps = DimInt 1
         then RecursivePadding first second pf (ps + 1) (padding_size + 1)
                (padding_f @ [padding_size], padding_s)
         else Inl (EnforceFailed ''second[ps] must be '1' to padding.''))
      else if ps = length second then
        (if first ! pf = DimInt 1
         then RecursivePadding first second (pf + 1) ps (padding_size + 1)
                (padding_f, padding_s @ [padding_size])
         else Inl (EnforceFailed ''second[ps] must be '1' to padding.''))
      else if second ! ps = first ! pf then
        RecursivePadding first second (pf + 1) (ps + 1) (padding_size + 1)
          (padding_f, padding_s)
      else if second ! ps = DimInt 1 then
        RecursivePadding first second pf (ps + 1) (padding_size + 1)
          (padding_f @ [padding_size], padding_s)
      else if first ! pf = DimInt 1 then
        RecursivePadding first second (pf + 1) ps (padding_size + 1)
          (padding_f, padding_s @ [padding_size])
      else Inl (Thrown ''Padding Error.''))"
  by pat_completeness auto
termination
  by (relation "measure (\<lambda>(first, second, pf, ps, n, acc).
        (length first - pf) + (length second - ps))") auto

definition GetPaddingVector ::
  "LoopExprs \<Rightarrow> LoopExprs \<Rightarrow> error + (int list \<times> int list)" where
  "GetPaddingVector first second = RecursivePadding first second 0 0 0 ([], [])"

section \<open>Horizontal merge and the merge dispatch\<close>

definition MergePatternImpl_Horizontal_Horizontal ::
  "Graph \<Rightarrow> PaddingStmtPattern list \<times> FusionTracker
     \<Rightarrow> PaddingStmtPattern list \<times> FusionTracker \<Rightarrow> error + StmtPattern" where
  "MergePatternImpl_Horizontal_Horizontal G first second =
     (case GetLoopFramework G (HorizontalFusion (fst first) (snd first)) of
        Inl e \<Rightarrow> Inl e
      | Inr first_loops \<Rightarrow>
     (case GetLoopFramework G (HorizontalFusion (fst second) (snd second)) of
        Inl e \<Rightarrow> Inl e
      | Inr second_loops \<Rightarrow>
     (case GetPaddingVector (loop first_loops) (loop second_loops) of
        Inl e \<Rightarrow> Inl e
      | Inr (f, s) \<Rightarrow>
          (let pad_first = (HorizontalFusion (fst first) (snd first), f);
               pad_second = (HorizontalFusion (fst second) (snd second), s)
           in Inr (HorizontalFusion [pad_first, pad_second]
                     (merge_tracker (snd first) (snd second)))))))"

fun MergePattern :: "Graph \<Rightarrow> StmtPattern \<Rightarrow> StmtPattern \<Rightarrow> error + StmtPattern" where
  "MergePattern G (ReduceTree lhs) (ReduceTree rhs) =
     (case MergePatternImpl_ReduceTree_ReduceTree G lhs rhs of
        Inl e \<Rightarrow> Inl e
      | Inr r \<Rightarrow> Inr (ReduceTree r))"
| "MergePattern G (ReduceTree lhs) (Trivial rhs) =
     Inr (ReduceTreePlusTrivial (MergePatternImpl_ReduceTree_Trivial lhs rhs))"
| "MergePattern G (Trivial lhs) (Reduce rhs) =
     Inr (Reduce (MergePatternImpl_Trivial_Reduce lhs rhs))"
| "MergePattern G (Trivial lhs) (Trivial rhs) =
     Inr (Trivial (MergePatternImpl_Trivial_Trivial lhs rhs))"
| "MergePattern G (Trivial lhs) (ReduceTree rhs) =
     Inr (ReduceTree (MergePatternImpl_Trivial_ReduceTree G lhs rhs))"
| "MergePattern G (Trivial lhs) (ReduceTreePlusTrivial rhs) =
     Inr (ReduceTreePlusTrivial (MergePatternImpl_Trivial_ReduceTreePlusTrivial G lhs rhs))"
| "MergePattern G (Trivial lhs) (ItersPermutation rhs) =
     Inr (ItersPermutation (MergePatternImpl_Trivial_ItersPermutation lhs rhs))"
| "MergePattern G (HorizontalFusion ms1 t1) (HorizontalFusion ms2 t2) =
     MergePatternImpl_Horizontal_Horizontal G (ms1, t1) (ms2, t2)"
| "MergePattern G lhs rhs = Inl (Unimplemented ''Not support for MergePatternImpl'')"

section \<open>The unpool kernels\<close>

text \<open>
  Modelled from the spec: \<^verbatim>\<open>DenseTensor\<close> and \<^verbatim>\<open>phi::DataType\<close> are declared
  outside the given sources. A tensor has its dimensions, the dtype of its elements
  and its elements in row-major order. The elements of the indices tensor are signed
  integers. \<^verbatim>\<open>DenseTensor::data<IndT>()\<close> is declared outside the given sources too;
  it is the parameter \<open>data_as\<close>, which is told the index type of the instantiation.
\<close>

datatype DataType =
  UNDEFINED | BOOL | UINT8 | INT8 | INT16 | INT32 | INT64 | FLOAT16 | FLOAT32 | FLOAT64

datatype IndT = IndT_int | IndT_int64_t

record 'a DenseTensor =
  dims :: "int list"
  dtype :: DataType
  elems :: "'a list"

text \<open>
  The dimensions of a tensor are 64-bit; \<^verbatim>\<open>static_cast<int>\<close> keeps the low 32 bits
  as a signed number. \<open>int_times\<close> is the product of two \<^verbatim>\<open>int\<close> values.
\<close>

definition static_cast_int :: "int \<Rightarrow> int" where
  "static_cast_int d = (d + 2147483648) mod 4294967296 - 2147483648"

definition int_times :: "int \<Rightarrow> int \<Rightarrow> error + int" where
  "int_times a b =
     (if - 2147483648 \<le> a * b \<and> a * b < 2147483648 then Inr (a * b)
      else Inl (Overflow ''int * int''))"

definition in_buffer :: "int \<Rightarrow> 'a list \<Rightarrow> bool" where
  "in_buffer k buf = (0 \<le> k \<and> k < int (length buf))"

text \<open>
  The innermost loop, over \<open>i < input_feasize\<close>. The three pointers are offsets into
  the buffers of \<^verbatim>\<open>x\<close>, \<^verbatim>\<open>indices\<close> and \<^verbatim>\<open>out\<close>. An access outside a buffer is
  the error \<open>OutOfRange\<close>.
\<close>

fun Unpool_feature_loop ::
  "int \<Rightarrow> 'a list \<Rightarrow> int list \<Rightarrow> int \<Rightarrow> int \<Rightarrow> int \<Rightarrow> nat list \<Rightarrow> 'a list
     \<Rightarrow> error + 'a list" where
  "Unpool_feature_loop output_feasize input_buf indices_buf input_data indices_data
     output_data [] output_buf = Inr output_buf"
| "Unpool_feature_loop output_feasize input_buf indices_buf input_data indices_data
     output_data (i # rest) output_buf =
     (if \<not> in_buffer (indices_data + int i) indices_buf
      then Inl (OutOfRange ''indices_data[i]'')
      else
        (let index = indices_buf ! nat (indices_data + int i) in
         if \<not> index < output_feasize
         then Inl (InvalidArgument ''index should less than output feature size''
                     index output_feasize)
         else if \<not> in_buffer (input_data + int i) input_buf
         then Inl (OutOfRange ''input_data[i]'')
         else if \<not> in_buffer (output_data + index) output_buf
         then Inl (OutOfRange ''output_data[index]'')
         else Unpool_feature_loop output_feasize input_buf indices_buf input_data
                indices_data output_data rest
                (output_buf[nat (output_data + index) := input_buf ! nat (input_data + int i)])))"

text \<open>
  The two outer loops, over \<open>b < batch_size\<close> and \<open>c < output_channels\<close>; their
  counters are not read in the body, and after each channel the pointers advance by
  \<open>input_feasize\<close>, \<open>input_feasize\<close> and \<open>output_feasize\<close>.
\<close>

fun Unpool_channel_loop ::
  "int \<Rightarrow> int \<Rightarrow> 'a list \<Rightarrow> int list \<Rightarrow> nat \<Rightarrow> int \<times> int \<times> int \<times> 'a list
     \<Rightarrow> error + (int \<times> int \<times> int \<times> 'a list)" where
  "Unpool_channel_loop input_feasize output_feasize input_buf indices_buf 0 st = Inr st"
| "Unpool_channel_loop input_feasize output_feasize input_buf indices_buf (Suc c)
     (input_data, indices_data, output_data, output_buf) =
     and_then
       (Unpool_feature_loop output_feasize input_buf indices_buf input_data indices_data
          output_data [0..<nat input_feasize] output_buf)
       (\<lambda>output_buf'.
          Unpool_channel_loop input_feasize output_feasize input_buf indices_buf c
            (input_data + input_feasize, indices_data + input_feasize,
             output_data + output_feasize, output_buf'))"

fun Unpool_batch_loop ::
  "int \<Rightarrow> int \<Rightarrow> int \<Rightarrow> 'a list \<Rightarrow> int list \<Rightarrow> nat \<Rightarrow> int \<times> int \<times> int \<times> 'a list
     \<Rightarrow> error + (int \<times> int \<times> int \<times> 'a list)" where
  "Unpool_batch_loop output_channels input_feasize output_feasize input_buf indices_buf 0 st =
     Inr st"
| "Unpool_batch_loop output_channels input_feasize output_feasize input_buf indices_buf
     (Suc b) st =
     and_then
       (Unpool_channel_loop input_feasize output_feasize input_buf indices_buf
          (nat output_channels) st)
       (\<lambda>st'. Unpool_batch_loop output_channels input_feasize output_feasize input_buf
                 indices_buf b st')"

definition Alloc_zero :: "int list \<Rightarrow> ('a::zero) list" where
  "Alloc_zero ds = replicate (nat (prod_list ds)) 0"

definition Unpool ::
  "(IndT \<Rightarrow> int DenseTensor \<Rightarrow> error + int list) \<Rightarrow> IndT \<Rightarrow> ('a::zero) DenseTensor
     \<Rightarrow> int DenseTensor \<Rightarrow> 'a DenseTensor \<Rightarrow> error + 'a DenseTensor" where
  "Unpool data_as ind_t x indices out =
     (if length (dims x) < 4 \<or> length (dims out) < 4 then Inl (OutOfRange ''dims()'')
      else
        (let output_buf = Alloc_zero (dims out);
             batch_size = static_cast_int (dims x ! 0);
             input_height = static_cast_int (dims x ! 2);
             input_width = static_cast_int (dims x ! 3);
             output_channels = static_cast_int (dims out ! 1);
             output_height = static_cast_int (dims out ! 2);
             output_width = static_cast_int (dims out ! 3)
         in and_then (int_times input_height input_width) (\<lambda>input_feasize.
            and_then (int_times output_height output_width) (\<lambda>output_feasize.
            and_then (data_as ind_t indices) (\<lambda>indices_buf.
            and_then
              (Unpool_batch_loop output_channels input_feasize output_feasize (elems x)
                 indices_buf (nat batch_size) (0, 0, 0, output_buf))
              (\<lambda>st. Inr (out\<lparr>elems := snd (snd (snd st))\<rparr>)))))))"

definition UnpoolKernel ::
  "(IndT \<Rightarrow> int DenseTensor \<Rightarrow> error + int list) \<Rightarrow> ('a::zero) DenseTensor
     \<Rightarrow> int DenseTensor \<Rightarrow> 'a DenseTensor \<Rightarrow> error + 'a DenseTensor" where
  "UnpoolKernel data_as x indices out =
     (let indices_type = dtype indices in
      if indices_type = INT32 then Unpool data_as IndT_int x indices out
      else Unpool data_as IndT_int64_t x indices out)"

definition Unpool3d ::
  "(IndT \<Rightarrow> int DenseTensor \<Rightarrow> error + int list) \<Rightarrow> IndT \<Rightarrow> ('a::zero) DenseTensor
     \<Rightarrow> int DenseTensor \<Rightarrow> 'a DenseTensor \<Rightarrow> error + 'a DenseTensor" where
  "Unpool3d data_as ind_t x indices out =
     (if length (dims x) < 5 \<or> length (dims out) < 5 then Inl (OutOfRange ''dims()'')
      else
        (let output_buf = Alloc_zero (dims out);
             batch_size = static_cast_int (dims x ! 0);
             input_depth = static_cast_int (dims x ! 2);
             input_height = static_cast_int (dims x ! 3);
             input_width = static_cast_int (dims x ! 4);
             output_channels = static_cast_int (dims out ! 1);
             output_depth = static_cast_int (dims out ! 2);
             output_height = static_cast_int (dims out ! 3);
             output_width = static_cast_int (dims out ! 4)
         in and_then (int_times input_depth input_height) (\<lambda>input_area.
            and_then (int_times input_area input_width) (\<lambda>input_feasize.
            and_then (int_times output_depth output_height) (\<lambda>output_area.
            and_then (int_times output_area output_width) (\<lambda>output_feasize.
            and_then (data_as ind_t indices) (\<lambda>indices_buf.
            and_then
              (Unpool_batch_loop output_channels input_feasize output_feasize (elems x)
                 indices_buf (nat batch_size) (0, 0, 0, output_buf))
              (\<lambda>st. Inr (out\<lparr>elems := snd (snd (snd st))\<rparr>)))))))))"

definition Unpool3dKernel ::
  "(IndT \<Rightarrow> int DenseTensor \<Rightarrow> error + int list) \<Rightarrow> ('a::zero) DenseTensor
     \<Rightarrow> int DenseTensor \<Rightarrow> 'a DenseTensor \<Rightarrow> error + 'a DenseTensor" where
  "Unpool3dKernel data_as x indices out =
     (let indices_type = dtype indices in
      if indices_type = INT32 then Unpool3d data_as IndT_int x indices out
      else Unpool3d data_as IndT_int64_t x indices out)"

section \<open>Observations on patterns and concrete inputs\<close>

text \<open>
  The tracker of a pattern (\<^verbatim>\<open>impl.tracker_\<close> under \<^verbatim>\<open>std::visit\<close>), the
  alternative a \<^verbatim>\<open>StmtPattern\<close> holds, and a small graph and an indices reader for
  concrete evaluations.
\<close>

fun pattern_tracker :: "StmtPattern \<Rightarrow> FusionTracker" where
  "pattern_tracker (Reduce p) = r_tracker p"
| "pattern_tracker (Trivial p) = t_tracker p"
| "pattern_tracker (Unsupport p) = u_tracker p"
| "pattern_tracker (ReduceTree p) = rt_tracker p"
| "pattern_tracker (ReduceTreePlusTrivial p) = rtt_tracker p"
| "pattern_tracker (HorizontalFusion ms t) = t"
| "pattern_tracker (ItersPermutation p) = ip_tracker p"

datatype Variant =
  VReduce | VTrivial | VUnsupport | VReduceTree | VReduceTreePlusTrivial
  | VHorizontalFusion | VItersPermutation

fun variant_of :: "StmtPattern \<Rightarrow> Variant" where
  "variant_of (Reduce p) = VReduce"
| "variant_of (Trivial p) = VTrivial"
| "variant_of (Unsupport p) = VUnsupport"
| "variant_of (ReduceTree p) = VReduceTree"
| "variant_of (ReduceTreePlusTrivial p) = VReduceTreePlusTrivial"
| "variant_of (HorizontalFusion ms t) = VHorizontalFusion"
| "variant_of (ItersPermutation p) = VItersPermutation"

definition graph0 :: Graph where
  "graph0 = \<lparr>GetOpPatternKind = (\<lambda>op. if op = 1 then kReduction else if op = 2 then kBroadcast else kNonFusible),
     result0 = (\<lambda>op. op), operand0_source = (\<lambda>op. 0), value_uses = (\<lambda>v. []),
     FindDownstreamOps = (\<lambda>op. []), GetDimExprsFromValue = (\<lambda>v. []),
     GetReduceAxisIdx = (\<lambda>op. []), reduce_op_of = last\<rparr>"

definition plain_data :: "IndT \<Rightarrow> int DenseTensor \<Rightarrow> error + int list" where
  "plain_data ind_t t = Inr (elems t)"

section \<open>Notions for the claims about reduce-tree insertion\<close>

text \<open>
  The number of nodes of a reduce tree; the relation between a tree and the same tree
  with \<open>up\<close> appended to the children of exactly one of its nodes; and whether
  the result of the upstream root reduction is used by the root of some node of a tree.
\<close>

fun tree_nodes :: "ReduceTreePattern \<Rightarrow> nat" where
  "tree_nodes (ReduceTreePattern cs r t) = Suc (sum_list (map tree_nodes cs))"

function attached :: "ReduceTreePattern \<Rightarrow> ReduceTreePattern \<Rightarrow> ReduceTreePattern \<Rightarrow> bool" where
  "attached up (ReduceTreePattern cs r t) (ReduceTreePattern cs' r' t') =
     (r' = r \<and> t' = t \<and>
      (cs' = cs @ [up] \<or>
       (length cs' = length cs \<and>
        list_ex (\<lambda>i. attached up (cs ! i) (cs' ! i) \<and> take i cs' = take i cs \<and>
                      drop (Suc i) cs' = drop (Suc i) cs) [0..<length cs])))"
  by pat_completeness auto
termination
proof (relation "measure (\<lambda>(up, d, d'). size d)")
  fix up :: ReduceTreePattern and cs :: "ReduceTreePattern list" and r :: ReducePattern
    and t :: FusionTracker and cs' :: "ReduceTreePattern list" and r' :: ReducePattern
    and t' :: FusionTracker and z :: nat
  assume "z \<in> set [0..<length cs]"
  then have "cs ! z \<in> set cs" by simp
  then have "size (cs ! z) \<le> size_list size cs" by (rule size_list_estimation') simp
  then show "((up, cs ! z, cs' ! z), up, ReduceTreePattern cs r t, ReduceTreePattern cs' r' t')
               \<in> measure (\<lambda>(up, d, d'). size d)"
    by simp
qed simp

fun consumed_in :: "Graph \<Rightarrow> ReducePattern \<Rightarrow> ReduceTreePattern \<Rightarrow> bool" where
  "consumed_in G up_root (ReduceTreePattern cs r t) =
     (is_direct_upstream G up_root r \<or> list_ex (consumed_in G up_root) cs)"

text \<open>
  This definition follows the words of the spec, not the source: "recursively search
  children first at the current node; if the current node's root is a direct consumer,
  attach there". It is compared with \<open>InsertUpstreamIntoTree\<close> below.
\<close>

fun InsertUpstreamIntoTree_children_first ::
  "Graph \<Rightarrow> ReduceTreePattern \<Rightarrow> ReduceTreePattern \<Rightarrow> int \<times> ReduceTreePattern" where
  "InsertUpstreamIntoTree_children_first G upstream (ReduceTreePattern cs root_p tr) =
     (let visited = fold (\<lambda>child acc.
            (let r = InsertUpstreamIntoTree_children_first G upstream child
             in (fst acc + fst r, snd acc @ [snd r]))) cs (0, []);
          node = ReduceTreePattern (snd visited) root_p tr
      in if is_direct_upstream G (GetRootPattern upstream) root_p
         then (fst visited + 1, InsertChild node upstream)
         else (fst visited, node))"

text \<open>
  A graph in which the result of op 10 is used by the ops 20 and 30, and some trees
  over it.
\<close>

definition tree_graph :: Graph where
  "tree_graph = \<lparr>GetOpPatternKind = (\<lambda>op. kReduction),
     result0 = (\<lambda>op. op), operand0_source = (\<lambda>op. 0),
     value_uses = (\<lambda>v. if v = 10 then [20, 30] else []),
     FindDownstreamOps = (\<lambda>op. []), GetDimExprsFromValue = (\<lambda>v. []),
     GetReduceAxisIdx = (\<lambda>op. []), reduce_op_of = last\<rparr>"

definition leaf :: "Operation \<Rightarrow> ReduceTreePattern" where
  "leaf op = ReduceTreePattern [] (ReducePattern [op] new_tracker) new_tracker"

definition up_leaf :: ReduceTreePattern where
  "up_leaf = leaf 10"

definition up_with_child :: ReduceTreePattern where
  "up_with_child = ReduceTreePattern [leaf 5] (ReducePattern [10] new_tracker) new_tracker"

definition down_root_and_child :: ReduceTreePattern where
  "down_root_and_child =
     ReduceTreePattern [leaf 30] (ReducePattern [20] new_tracker) new_tracker"

definition down_two_children :: ReduceTreePattern where
  "down_two_children =
     ReduceTreePattern [leaf 20, leaf 30] (ReducePattern [40] new_tracker) new_tracker"

text \<open>
  Nodes of a reduce tree are addressed by paths of child indices. \<open>subtree_at p d\<close> is
  the node of \<open>d\<close> at the path \<open>p\<close>, \<open>all_paths d\<close> lists the paths of all nodes of
  \<open>d\<close>, and \<open>insert_at p up d\<close> is \<open>d\<close> with \<open>up\<close> appended to the children of the
  node at \<open>p\<close>. An attachment point of \<open>up\<close> in \<open>d\<close> is a node whose root reduction is
  a direct consumer of the result of the root reduction of \<open>up\<close> while the root
  reduction of none of its proper ancestors is.
\<close>

fun subtree_at :: "nat list \<Rightarrow> ReduceTreePattern \<Rightarrow> ReduceTreePattern option" where
  "subtree_at [] node = Some node"
| "subtree_at (i # p) node =
     (if i < length (childs node) then subtree_at p (childs node ! i) else None)"

fun insert_at :: "nat list \<Rightarrow> ReduceTreePattern \<Rightarrow> ReduceTreePattern \<Rightarrow> ReduceTreePattern" where
  "insert_at [] up node = InsertChild node up"
| "insert_at (i # p) up node =
     (if i < length (childs node)
      then ReduceTreePattern ((childs node)[i := insert_at p up (childs node ! i)])
             (GetRootPattern node) (rt_tracker node)
      else node)"

function all_paths :: "ReduceTreePattern \<Rightarrow> nat list list" where
  "all_paths (ReduceTreePattern cs r t) =
     [] # concat (map (\<lambda>i. map ((#) i) (all_paths (cs ! i))) [0..<length cs])"
  by pat_completeness auto
termination
proof (relation "measure size")
  fix cs :: "ReduceTreePattern list" and r :: ReducePattern and t :: FusionTracker and z :: nat
  assume "z \<in> set [0..<length cs]"
  then have "cs ! z \<in> set cs" by simp
  then have "size (cs ! z) \<le> size_list size cs" by (rule size_list_estimation') simp
  then show "(cs ! z, ReduceTreePattern cs r t) \<in> measure size" by simp
qed simp

definition is_attach_point ::
  "Graph \<Rightarrow> ReduceTreePattern \<Rightarrow> ReduceTreePattern \<Rightarrow> nat list \<Rightarrow> bool" where
  "is_attach_point G up down p =
     (case subtree_at p down of
        None \<Rightarrow> False
      | Some node \<Rightarrow>
          is_direct_upstream G (GetRootPattern up) (GetRootPattern node) \<and>
          list_all (\<lambda>k. case subtree_at (take k p) down of
                           None \<Rightarrow> True
                         | Some ancestor \<Rightarrow>
                             \<not> is_direct_upstream G (GetRootPattern up)
                                 (GetRootPattern ancestor))
            [0..<length p])"

definition attach_points ::
  "Graph \<Rightarrow> ReduceTreePattern \<Rightarrow> ReduceTreePattern \<Rightarrow> nat list list" where
  "attach_points G up down = filter (is_attach_point G up down) (all_paths down)"

text \<open>
  A downstream tree in which only the second child of the root uses the result of
  op 10.
\<close>

definition down_deep :: ReduceTreePattern where
  "down_deep = ReduceTreePattern [leaf 50, leaf 20] (ReducePattern [40] new_tracker) new_tracker"

text \<open>
  Whether a merge of a trivial pattern into a reduce tree, or into a tree plus trivial,
  is connected: the sink of the trivial pattern has a downstream op among the ops of
  the pattern it is merged into. Every other pair counts as connected.
\<close>

fun connected_merge :: "Graph \<Rightarrow> StmtPattern \<Rightarrow> StmtPattern \<Rightarrow> bool" where
  "connected_merge G (Trivial a) (ReduceTree b) =
     AnyFirstInSecond (FindDownstreamOps G (sink_op a)) (rt_ops b)"
| "connected_merge G (Trivial a) (ReduceTreePlusTrivial b) =
     AnyFirstInSecond (FindDownstreamOps G (sink_op a)) (rtt_ops b)"
| "connected_merge G lhs rhs = True"

text \<open>
  A chain of ops \<open>1 \<rightarrow> 2 \<rightarrow> 3\<close>, the same graph without the edge from 1 to 2, and
  three patterns over them.
\<close>

definition chain_graph :: "bool \<Rightarrow> Graph" where
  "chain_graph edge12 = \<lparr>GetOpPatternKind = (\<lambda>op. if op = 3 then kReduction else kElementWise),
     result0 = (\<lambda>op. op), operand0_source = (\<lambda>op. 0), value_uses = (\<lambda>v. []),
     FindDownstreamOps = (\<lambda>op. if op = 1 \<and> edge12 then [2] else if op = 2 then [3] else []),
     GetDimExprsFromValue = (\<lambda>v. []), GetReduceAxisIdx = (\<lambda>op. []), reduce_op_of = last\<rparr>"

definition pat_A :: StmtPattern where
  "pat_A = Trivial (TrivialPattern [1] 1 new_tracker)"

definition pat_B :: StmtPattern where
  "pat_B = Trivial (TrivialPattern [2] 2 new_tracker)"

definition pat_C :: StmtPattern where
  "pat_C = ReduceTree (ReduceTreePattern [] (ReducePattern [3] new_tracker) new_tracker)"

definition pat_AB :: StmtPattern where
  "pat_AB = Trivial (TrivialPattern [1, 2] 2 (merge_tracker new_tracker new_tracker))"

definition pat_BC :: StmtPattern where
  "pat_BC = ReduceTree (ReduceTreePattern []
     (ReducePattern [2, 3] (merge_tracker new_tracker new_tracker))
     (merge_tracker new_tracker new_tracker))"

definition pat_AB_C :: StmtPattern where
  "pat_AB_C = ReduceTree (ReduceTreePattern []
     (ReducePattern [1, 2, 3]
        (merge_tracker (merge_tracker new_tracker new_tracker) new_tracker))
     (merge_tracker (merge_tracker new_tracker new_tracker) new_tracker))"

definition pat_A_BC :: StmtPattern where
  "pat_A_BC = ReduceTree (ReduceTreePattern []
     (ReducePattern [1, 2, 3]
        (merge_tracker new_tracker (merge_tracker new_tracker new_tracker)))
     (merge_tracker new_tracker (merge_tracker new_tracker new_tracker)))"

definition pat_A_BC_unconnected :: StmtPattern where
  "pat_A_BC_unconnected = ReduceTree (ReduceTreePattern []
     (ReducePattern [2, 3] (merge_tracker new_tracker new_tracker))
     (merge_tracker new_tracker (merge_tracker new_tracker new_tracker)))"

text \<open>
  This definition follows the words of the spec, not \<^verbatim>\<open>LoopFrameworkVisitor\<close>: the
  dimensions of the sink trivial at the indices of \<^verbatim>\<open>fake_reduce_iter_idx\<close> are
  relocated to the tail (as the else-branch of \<^verbatim>\<open>LoopValueDimsVisitor\<close> does with
  value dimensions). It is compared with \<open>GetLoopFramework\<close> below.
\<close>

definition fake_relocated_loop ::
  "Graph \<Rightarrow> ReduceTreePlusTrivialPattern \<Rightarrow> error + LoopExprs" where
  "fake_relocated_loop G pattern =
     (let trivial_loop = loop (LoopFramework_Trivial G (sink_trivial pattern)) in
      and_then (GatherVector trivial_loop
                  (map int (ExcludeIndex (length trivial_loop) (fake_reduce_iter_idx pattern))))
        (\<lambda>non_fake.
      and_then (GatherVector trivial_loop (map int (fake_reduce_iter_idx pattern)))
        (\<lambda>fake. Inr (ConcatVector non_fake fake))))"

text \<open>
  A graph with sizes: the trivial op 1 has result sizes \<open>[2, 3]\<close>, the trivial op 4
  has \<open>[2, 1, 5]\<close>, and the reduce op 3 reduces axis 1 of an operand of sizes
  \<open>[2, 5]\<close> to a result of sizes \<open>[2]\<close>.
\<close>

definition loop_graph :: Graph where
  "loop_graph = \<lparr>GetOpPatternKind = (\<lambda>op. if op = 3 then kReduction else kElementWise),
     result0 = (\<lambda>op. op), operand0_source = (\<lambda>op. 9), value_uses = (\<lambda>v. []),
     FindDownstreamOps = (\<lambda>op. []),
     GetDimExprsFromValue = (\<lambda>v. if v = 1 then [DimInt 2, DimInt 3]
        else if v = 4 then [DimInt 2, DimInt 1, DimInt 5]
        else if v = 3 then [DimInt 2]
        else [DimInt 2, DimInt 5]),
     GetReduceAxisIdx = (\<lambda>op. [1]), reduce_op_of = last\<rparr>"

definition tree_plus_trivial :: "nat list \<Rightarrow> ReduceTreePlusTrivialPattern" where
  "tree_plus_trivial fake =
     ReduceTreePlusTrivialPattern
       (ReduceTreePattern [] (ReducePattern [3] new_tracker) new_tracker)
       (TrivialPattern [1] 1 new_tracker) new_tracker fake"

text \<open>
  The calls of the lambda in the order in which they are made, each with its arguments
  and the two result vectors at the time of the call (the source logs every call as
  \<^verbatim>\<open>Padding Process: pf ps padding_size\<close>). It has the branches of
  \<open>RecursivePadding\<close>.
\<close>

function RecursivePadding_calls ::
  "LoopExprs \<Rightarrow> LoopExprs \<Rightarrow> nat \<Rightarrow> nat \<Rightarrow> int \<Rightarrow> int list \<times> int list
    \<Rightarrow> (nat \<times> nat \<times> int \<times> int list \<times> int list) list" where
  "RecursivePadding_calls first second pf ps padding_size (padding_f, padding_s) =
     (if length first < pf \<or> length second < ps then []
      else (pf, ps, padding_size, padding_f, padding_s) #
       (if pf = length first \<and> ps = length second then []
        else if pf = length first then
          (if second ! ps = DimInt 1
           then RecursivePadding_calls first second pf (ps + 1) (padding_size + 1)
                  (padding_f @ [padding_size], padding_s)
           else [])
        else if ps = length second then
          (if first ! pf = DimInt 1
           then RecursivePadding_calls first second (pf + 1) ps (padding_size + 1)
                  (padding_f, padding_s @ [padding_size])
           else [])
        else if second ! ps = first ! pf then
          RecursivePadding_calls first second (pf + 1) (ps + 1) (padding_size + 1)
            (padding_f, padding_s)
        else if second ! ps = DimInt 1 then
          RecursivePadding_calls first second pf (ps + 1) (padding_size + 1)
            (padding_f @ [padding_size], padding_s)
        else if first ! pf = DimInt 1 then
          RecursivePadding_calls first second (pf + 1) ps (padding_size + 1)
            (padding_f, padding_s @ [padding_size])
        else []))"
  by pat_completeness auto
termination
  by (relation "measure (\<lambda>(first, second, pf, ps, n, acc).
        (length first - pf) + (length second - ps))") auto

text \<open>
  A sequence with a unit dimension inserted at each padding position: position
  \<open>n\<close> and the positions after it, \<open>m\<close> positions in all, take the unit dimension
  where the position is a padding position and the next entry of the sequence
  elsewhere. Two sequences are aligned from position \<open>n\<close> by their padding positions
  when all positions are at least \<open>n\<close> and both padded sequences are the same.
\<close>

fun insert_units :: "int \<Rightarrow> int list \<Rightarrow> LoopExprs \<Rightarrow> nat \<Rightarrow> LoopExprs" where
  "insert_units n padding xs 0 = []"
| "insert_units n padding xs (Suc m) =
     (if n \<in> set padding then DimInt 1 # insert_units (n + 1) padding xs m
      else (case xs of [] \<Rightarrow> [] | x # rest \<Rightarrow> x # insert_units (n + 1) padding rest m))"

definition aligned_from :: "int \<Rightarrow> LoopExprs \<Rightarrow> LoopExprs \<Rightarrow> int list \<Rightarrow> int list \<Rightarrow> bool" where
  "aligned_from n xs ys padding_f padding_s =
     (list_all (\<lambda>p. n \<le> p) padding_f \<and> list_all (\<lambda>p. n \<le> p) padding_s \<and>
      length xs + length padding_f = length ys + length padding_s \<and>
      insert_units n padding_f xs (length xs + length padding_f) =
      insert_units n padding_s ys (length ys + length padding_s))"

section \<open>Properties of GetPaddingVector\<close>

declare RecursivePadding.simps [simp del]

lemma upt_positions_step:
  "k = Suc d \<Longrightarrow>
   map (\<lambda>j. n + int j) [0..<k] = n # map (\<lambda>j. n + 1 + int j) [0..<d]"
  by (simp only: map_upt_Suc) (simp add: add.assoc)

lemma all_from_step:
  assumes "xs ! p = v"
  shows "(\<forall>i. p \<le> i \<and> i < length xs \<longrightarrow> xs ! i = v) =
         (\<forall>i. p + 1 \<le> i \<and> i < length xs \<longrightarrow> xs ! i = v)"
proof (intro iffI allI impI)
  fix i
  assume a: "\<forall>i. p + 1 \<le> i \<and> i < length xs \<longrightarrow> xs ! i = v"
    and b: "p \<le> i \<and> i < length xs"
  show "xs ! i = v"
  proof (cases "i = p")
    case True
    then show ?thesis using assms by simp
  next
    case False
    then have "p + 1 \<le> i" using b by simp
    then show ?thesis using a b by blast
  qed
qed simp

lemma RecursivePadding_first_exhausted:
  "ps \<le> length second \<Longrightarrow>
   RecursivePadding first second (length first) ps n (F, S) =
     (if \<forall>i. ps \<le> i \<and> i < length second \<longrightarrow> second ! i = DimInt 1
      then Inr (F @ map (\<lambda>j. n + int j) [0..<length second - ps], S)
      else Inl (EnforceFailed ''second[ps] must be '1' to padding.''))"
proof (induction "length second - ps" arbitrary: ps n F)
  case 0
  then show ?case by (simp add: RecursivePadding.simps)
next
  case (Suc d)
  then have lt: "ps < length second" and d: "d = length second - (ps + 1)"
    by simp_all
  show ?case
  proof (cases "second ! ps = DimInt 1")
    case False
    then show ?thesis using lt
      by (subst RecursivePadding.simps) auto
  next
    case True
    have m: "map (\<lambda>j. n + int j) [0..<length second - ps] =
             n # map (\<lambda>j. n + 1 + int j) [0..<length second - (ps + 1)]"
      using lt by (intro upt_positions_step) simp
    show ?thesis
      using lt True Suc.hyps(1)[OF d, of "n + 1" "F @ [n]"]
      by (subst RecursivePadding.simps) (simp add: all_from_step[OF True] m)
  qed
qed

lemma RecursivePadding_second_exhausted:
  "pf \<le> length first \<Longrightarrow>
   RecursivePadding first second pf (length second) n (F, S) =
     (if \<forall>i. pf \<le> i \<and> i < length first \<longrightarrow> first ! i = DimInt 1
      then Inr (F, S @ map (\<lambda>j. n + int j) [0..<length first - pf])
      else Inl (EnforceFailed ''second[ps] must be '1' to padding.''))"
proof (induction "length first - pf" arbitrary: pf n S)
  case 0
  then show ?case by (simp add: RecursivePadding.simps)
next
  case (Suc d)
  then have lt: "pf < length first" and d: "d = length first - (pf + 1)"
    by simp_all
  show ?case
  proof (cases "first ! pf = DimInt 1")
    case False
    then show ?thesis using lt
      by (subst RecursivePadding.simps) auto
  next
    case True
    have m: "map (\<lambda>j. n + int j) [0..<length first - pf] =
             n # map (\<lambda>j. n + 1 + int j) [0..<length first - (pf + 1)]"
      using lt by (intro upt_positions_step) simp
    show ?thesis
      using lt True Suc.hyps(1)[OF d, of "n + 1" "S @ [n]"]
      by (subst RecursivePadding.simps) (simp add: all_from_step[OF True] m)
  qed
qed

lemma RecursivePadding_equal_step:
  "pf < length first \<Longrightarrow> ps < length second \<Longrightarrow> second ! ps = first ! pf \<Longrightarrow>
   RecursivePadding first second pf ps n (F, S) =
   RecursivePadding first second (pf + 1) (ps + 1) (n + 1) (F, S)"
  by (subst RecursivePadding.simps) simp

lemma RecursivePadding_mismatch:
  "pf < length first \<Longrightarrow> ps < length second \<Longrightarrow> second ! ps \<noteq> first ! pf \<Longrightarrow>
   second ! ps \<noteq> DimInt 1 \<Longrightarrow> first ! pf \<noteq> DimInt 1 \<Longrightarrow>
   RecursivePadding first second pf ps n (F, S) = Inl (Thrown ''Padding Error.'')"
  by (subst RecursivePadding.simps) simp

section \<open>Classification and dispatch\<close>

text \<open>
  Claim C1. \<^verbatim>\<open>ConvertToStmtPattern\<close> returns a \<^verbatim>\<open>ReducePattern\<close> with op list
  \<open>[op]\<close> when the kind of \<open>op\<close> is reduction, a \<^verbatim>\<open>TrivialPattern\<close> with op list
  \<open>[op]\<close> and sink \<open>op\<close> when the kind is elementwise, broadcast or injective, and an
  \<^verbatim>\<open>UnsupportPattern\<close> with op list \<open>[op]\<close> otherwise. It is a total function, so it
  has no failure path, and in every case the first instruction of the fresh tracker
  is the \<^verbatim>\<open>InitPatternInstr\<close> of \<open>op\<close>.
\<close>

theorem ConvertToStmtPattern_kind:
  "(GetOpPatternKind G (content_op c) = kReduction \<longrightarrow>
      ConvertToStmtPattern G fresh_id c =
        Reduce (ReducePattern [content_op c]
          (FusionTracker [] [InitPatternInstr (content_op c) fresh_id])))
   \<and> (GetOpPatternKind G (content_op c) \<in> {kElementWise, kBroadcast, kInjective} \<longrightarrow>
      ConvertToStmtPattern G fresh_id c =
        Trivial (TrivialPattern [content_op c] (content_op c)
          (FusionTracker [] [InitPatternInstr (content_op c) fresh_id])))
   \<and> (GetOpPatternKind G (content_op c) \<notin> {kReduction, kElementWise, kBroadcast, kInjective} \<longrightarrow>
      ConvertToStmtPattern G fresh_id c =
        Unsupport (UnsupportPattern [content_op c]
          (FusionTracker [] [InitPatternInstr (content_op c) fresh_id])))
   \<and> GetOpsInPattern (ConvertToStmtPattern G fresh_id c) = [content_op c]
   \<and> hd (instructions (pattern_tracker (ConvertToStmtPattern G fresh_id c))) =
        InitPatternInstr (content_op c) fresh_id"
  by (auto simp: ConvertToStmtPattern_def Let_def new_tracker_def)

theorem ConvertToStmtPattern_kind_witness:
  "ConvertToStmtPattern graph0 5 \<lparr>content_op = 1\<rparr> =
     Reduce (ReducePattern [1] (FusionTracker [] [InitPatternInstr 1 5]))
   \<and> ConvertToStmtPattern graph0 6 \<lparr>content_op = 2\<rparr> =
     Trivial (TrivialPattern [2] 2 (FusionTracker [] [InitPatternInstr 2 6]))
   \<and> ConvertToStmtPattern graph0 7 \<lparr>content_op = 3\<rparr> =
     Unsupport (UnsupportPattern [3] (FusionTracker [] [InitPatternInstr 3 7]))"
  using ConvertToStmtPattern_kind [of graph0 "\<lparr>content_op = 1\<rparr>" 5]
        ConvertToStmtPattern_kind [of graph0 "\<lparr>content_op = 2\<rparr>" 6]
        ConvertToStmtPattern_kind [of graph0 "\<lparr>content_op = 3\<rparr>" 7]
  by (simp add: graph0_def)

text \<open>
  Claim C8. For every ordered pair of variants outside the eight supported pairs,
  \<^verbatim>\<open>MergePattern\<close> fails with the unsupported-pair error and returns no pattern.
\<close>

theorem MergePattern_unsupported_pair:
  "(variant_of first, variant_of second) \<notin>
     {(VTrivial, VTrivial), (VTrivial, VReduce), (VTrivial, VReduceTree),
      (VTrivial, VReduceTreePlusTrivial), (VTrivial, VItersPermutation),
      (VReduceTree, VReduceTree), (VReduceTree, VTrivial),
      (VHorizontalFusion, VHorizontalFusion)} \<Longrightarrow>
   MergePattern G first second = Inl (Unimplemented ''Not support for MergePatternImpl'')"
  by (cases first; cases second) simp_all

theorem MergePattern_unsupported_pair_witness:
  "MergePattern graph0 (Reduce (ReducePattern [1] new_tracker))
       (Trivial (TrivialPattern [2] 2 new_tracker)) =
     Inl (Unimplemented ''Not support for MergePatternImpl'')
   \<and> MergePattern graph0 (Unsupport (UnsupportPattern [3] new_tracker))
       (Trivial (TrivialPattern [2] 2 new_tracker)) =
     Inl (Unimplemented ''Not support for MergePatternImpl'')
   \<and> MergePattern graph0 (Trivial (TrivialPattern [2] 2 new_tracker))
       (Unsupport (UnsupportPattern [3] new_tracker)) =
     Inl (Unimplemented ''Not support for MergePatternImpl'')"
  using MergePattern_unsupported_pair
          [of "Reduce (ReducePattern [1] new_tracker)"
              "Trivial (TrivialPattern [2] 2 new_tracker)" graph0]
        MergePattern_unsupported_pair
          [of "Unsupport (UnsupportPattern [3] new_tracker)"
              "Trivial (TrivialPattern [2] 2 new_tracker)" graph0]
        MergePattern_unsupported_pair
          [of "Trivial (TrivialPattern [2] 2 new_tracker)"
              "Unsupport (UnsupportPattern [3] new_tracker)" graph0]
  by simp

section \<open>The unpool kernels: dispatch and index check\<close>

text \<open>
  Claim C10. \<^verbatim>\<open>UnpoolKernel\<close> and \<^verbatim>\<open>Unpool3dKernel\<close> run the \<^verbatim>\<open>int\<close>
  instantiation when the dtype of the indices is \<open>INT32\<close> and the \<^verbatim>\<open>int64_t\<close>
  instantiation for every other dtype; the kernel's result is the result of the
  instantiation it selects, so the dispatch itself rejects no dtype.
\<close>

theorem UnpoolKernel_dispatch:
  "(dtype indices = INT32 \<longrightarrow>
      UnpoolKernel data_as x indices out = Unpool data_as IndT_int x indices out \<and>
      Unpool3dKernel data_as x indices out = Unpool3d data_as IndT_int x indices out)
   \<and> (dtype indices \<noteq> INT32 \<longrightarrow>
      UnpoolKernel data_as x indices out = Unpool data_as IndT_int64_t x indices out \<and>
      Unpool3dKernel data_as x indices out = Unpool3d data_as IndT_int64_t x indices out)"
  by (simp add: UnpoolKernel_def Unpool3dKernel_def)


theorem UnpoolKernel_dispatch_witness:
  "UnpoolKernel plain_data \<lparr>dims = [1, 1, 1, 1], dtype = INT64, elems = [7::int]\<rparr>
       \<lparr>dims = [1, 1, 1, 1], dtype = INT32, elems = [0]\<rparr>
       \<lparr>dims = [1, 1, 1, 1], dtype = INT64, elems = []\<rparr> =
     Unpool plain_data IndT_int \<lparr>dims = [1, 1, 1, 1], dtype = INT64, elems = [7::int]\<rparr>
       \<lparr>dims = [1, 1, 1, 1], dtype = INT32, elems = [0]\<rparr>
       \<lparr>dims = [1, 1, 1, 1], dtype = INT64, elems = []\<rparr>
   \<and> UnpoolKernel plain_data \<lparr>dims = [1, 1, 1, 1], dtype = INT64, elems = [7::int]\<rparr>
       \<lparr>dims = [1, 1, 1, 1], dtype = FLOAT32, elems = [0]\<rparr>
       \<lparr>dims = [1, 1, 1, 1], dtype = INT64, elems = []\<rparr> =
     Unpool plain_data IndT_int64_t \<lparr>dims = [1, 1, 1, 1], dtype = INT64, elems = [7::int]\<rparr>
       \<lparr>dims = [1, 1, 1, 1], dtype = FLOAT32, elems = [0]\<rparr>
       \<lparr>dims = [1, 1, 1, 1], dtype = INT64, elems = []\<rparr>"
  using UnpoolKernel_dispatch
          [of "\<lparr>dims = [1, 1, 1, 1], dtype = INT32, elems = [0]\<rparr>" plain_data
              "\<lparr>dims = [1, 1, 1, 1], dtype = INT64, elems = [7::int]\<rparr>"
              "\<lparr>dims = [1, 1, 1, 1], dtype = INT64, elems = []\<rparr>"]
        UnpoolKernel_dispatch
          [of "\<lparr>dims = [1, 1, 1, 1], dtype = FLOAT32, elems = [0]\<rparr>" plain_data
              "\<lparr>dims = [1, 1, 1, 1], dtype = INT64, elems = [7::int]\<rparr>"
              "\<lparr>dims = [1, 1, 1, 1], dtype = INT64, elems = []\<rparr>"]
  by simp

text \<open>
  Claim C9. The check \<^verbatim>\<open>PADDLE_ENFORCE_LT(index, output_feasize)\<close> bounds the index
  from above only. With the index \<open>-1\<close>, which is below the bound, the first channel
  writes before the start of the output buffer, and a later channel overwrites the last
  position of the channel before it: the kernel does not write the input element to a
  position of its own channel named by the index. \<^verbatim>\<open>Unpool3d\<close> runs the same loop.
\<close>

theorem Unpool_negative_index:
  "Unpool plain_data IndT_int
     \<lparr>dims = [1, 1, 1, 1], dtype = INT64, elems = [7::int]\<rparr>
     \<lparr>dims = [1, 1, 1, 1], dtype = INT32, elems = [- 1]\<rparr>
     \<lparr>dims = [1, 1, 1, 1], dtype = INT64, elems = []\<rparr>
   = Inl (OutOfRange ''output_data[index]'')
   \<and> Unpool plain_data IndT_int
     \<lparr>dims = [1, 2, 1, 1], dtype = INT64, elems = [7::int, 9]\<rparr>
     \<lparr>dims = [1, 2, 1, 1], dtype = INT32, elems = [0, - 1]\<rparr>
     \<lparr>dims = [1, 2, 1, 1], dtype = INT64, elems = []\<rparr>
   = Inr \<lparr>dims = [1, 2, 1, 1], dtype = INT64, elems = [9, 0]\<rparr>
   \<and> Unpool3d plain_data IndT_int64_t
     \<lparr>dims = [1, 1, 1, 1, 1], dtype = INT64, elems = [7::int]\<rparr>
     \<lparr>dims = [1, 1, 1, 1, 1], dtype = INT64, elems = [- 1]\<rparr>
     \<lparr>dims = [1, 1, 1, 1, 1], dtype = INT64, elems = []\<rparr>
   = Inl (OutOfRange ''output_data[index]'')"
  by (simp add: Unpool_def Unpool3d_def plain_data_def and_then_def Alloc_zero_def
        in_buffer_def static_cast_int_def int_times_def numeral_2_eq_2 upt_rec)

section \<open>Inserting an upstream reduce tree\<close>

lemma visit_fold:
  "fold (\<lambda>child acc. (fst acc + fst (f child), snd acc @ [snd (f child)])) cs acc0 =
     (fst acc0 + sum_list (map (\<lambda>c. fst (f c)) cs), snd acc0 @ map (\<lambda>c. snd (f c)) cs)"
  by (induction cs arbitrary: acc0) (simp_all add: Let_def add.assoc)

lemma InsertUpstreamIntoTree_unfold:
  "InsertUpstreamIntoTree G up (ReduceTreePattern cs r t) =
     (if is_direct_upstream G (GetRootPattern up) r
      then (1, ReduceTreePattern (cs @ [up]) r t)
      else (sum_list (map (\<lambda>c. fst (InsertUpstreamIntoTree G up c)) cs),
            ReduceTreePattern (map (\<lambda>c. snd (InsertUpstreamIntoTree G up c)) cs) r t))"
  by (simp add: visit_fold InsertChild_def Let_def)

declare InsertUpstreamIntoTree.simps [simp del]

lemma insert_num_nonneg: "0 \<le> fst (InsertUpstreamIntoTree G up d)"
proof (induction d)
  case (ReduceTreePattern cs r t)
  have "0 \<le> sum_list (map (\<lambda>c. fst (InsertUpstreamIntoTree G up c)) cs)"
    by (rule sum_list_nonneg) (auto simp: ReduceTreePattern.IH)
  then show ?case by (simp add: InsertUpstreamIntoTree_unfold)
qed

lemma sum_list_zero_all:
  "\<forall>x\<in>set xs. 0 \<le> g x \<Longrightarrow> sum_list (map g xs) = (0::int) \<Longrightarrow> \<forall>x\<in>set xs. g x = 0"
proof (induction xs)
  case Nil
  then show ?case by simp
next
  case (Cons a xs)
  have "0 \<le> sum_list (map g xs)" by (rule sum_list_nonneg) (use Cons.prems in auto)
  moreover have "0 \<le> g a" using Cons.prems by simp
  moreover have "g a + sum_list (map g xs) = 0" using Cons.prems by simp
  ultimately have a: "g a = 0" and r: "sum_list (map g xs) = 0" by linarith+
  have "\<forall>x\<in>set xs. 0 \<le> g x" using Cons.prems(1) by simp
  then have "\<forall>x\<in>set xs. g x = 0" using r by (rule Cons.IH)
  then show ?case using a by simp
qed

lemma insert_num_zero_same:
  "fst (InsertUpstreamIntoTree G up d) = 0 \<Longrightarrow> snd (InsertUpstreamIntoTree G up d) = d"
proof (induction d)
  case (ReduceTreePattern cs r t)
  from ReduceTreePattern.prems have nd: "\<not> is_direct_upstream G (GetRootPattern up) r"
    by (auto simp: InsertUpstreamIntoTree_unfold split: if_splits)
  with ReduceTreePattern.prems
  have "sum_list (map (\<lambda>c. fst (InsertUpstreamIntoTree G up c)) cs) = 0"
    by (simp add: InsertUpstreamIntoTree_unfold)
  then have "\<forall>c\<in>set cs. fst (InsertUpstreamIntoTree G up c) = 0"
    by (intro sum_list_zero_all) (simp_all add: insert_num_nonneg)
  then have "map (\<lambda>c. snd (InsertUpstreamIntoTree G up c)) cs = cs"
    using ReduceTreePattern.IH by (simp add: map_idI)
  then show ?case using nd by (simp add: InsertUpstreamIntoTree_unfold)
qed

lemma sum_list_one_split:
  "\<forall>x\<in>set cs. 0 \<le> g x \<Longrightarrow> sum_list (map g cs) = (1::int) \<Longrightarrow>
   \<exists>xs c ys. cs = xs @ c # ys \<and> g c = 1 \<and> (\<forall>x\<in>set xs. g x = 0) \<and> (\<forall>y\<in>set ys. g y = 0)"
proof (induction cs)
  case Nil
  then show ?case by simp
next
  case (Cons a cs)
  have nn: "0 \<le> sum_list (map g cs)" by (rule sum_list_nonneg) (use Cons.prems in auto)
  have a0: "0 \<le> g a" using Cons.prems by simp
  have s: "g a + sum_list (map g cs) = 1" using Cons.prems by simp
  show ?case
  proof (cases "g a = 0")
    case True
    then have "sum_list (map g cs) = 1" using s by simp
    moreover have "\<forall>x\<in>set cs. 0 \<le> g x" using Cons.prems by simp
    ultimately have "\<exists>xs c ys. cs = xs @ c # ys \<and> g c = 1 \<and> (\<forall>x\<in>set xs. g x = 0)
        \<and> (\<forall>y\<in>set ys. g y = 0)"
      by (intro Cons.IH)
    then obtain xs c ys where
      "cs = xs @ c # ys" "g c = 1" "\<forall>x\<in>set xs. g x = 0" "\<forall>y\<in>set ys. g y = 0"
      by blast
    then have "a # cs = (a # xs) @ c # ys \<and> g c = 1 \<and> (\<forall>x\<in>set (a # xs). g x = 0)
                \<and> (\<forall>y\<in>set ys. g y = 0)"
      using True by simp
    then show ?thesis by blast
  next
    case False
    then have "g a = 1" "sum_list (map g cs) = 0" using nn a0 s by linarith+
    moreover then have "\<forall>x\<in>set cs. g x = 0"
      using Cons.prems by (intro sum_list_zero_all) simp_all
    ultimately have "a # cs = [] @ a # cs \<and> g a = 1 \<and> (\<forall>x\<in>set []. g x = 0)
                \<and> (\<forall>y\<in>set cs. g y = 0)"
      by simp
    then show ?thesis by blast
  qed
qed

lemma attached_here: "attached up node (InsertChild node up)"
  by (cases node) (simp add: InsertChild_def)

lemma attached_below:
  assumes "attached up c c'"
  shows "attached up (ReduceTreePattern (xs @ c # ys) r t) (ReduceTreePattern (xs @ c' # ys) r t)"
proof -
  let ?i = "length xs"
  have "?i \<in> set [0..<length (xs @ c # ys)]" by simp
  moreover have "attached up ((xs @ c # ys) ! ?i) ((xs @ c' # ys) ! ?i)
      \<and> take ?i (xs @ c' # ys) = take ?i (xs @ c # ys)
      \<and> drop (Suc ?i) (xs @ c' # ys) = drop (Suc ?i) (xs @ c # ys)"
    using assms by simp
  ultimately have "list_ex (\<lambda>i. attached up ((xs @ c # ys) ! i) ((xs @ c' # ys) ! i)
      \<and> take i (xs @ c' # ys) = take i (xs @ c # ys)
      \<and> drop (Suc i) (xs @ c' # ys) = drop (Suc i) (xs @ c # ys)) [0..<length (xs @ c # ys)]"
    unfolding list_ex_iff by (rule rev_bexI)
  then show ?thesis by (subst attached.simps) simp
qed

lemma attached_nodes: "attached up d d' \<Longrightarrow> tree_nodes d' = tree_nodes d + tree_nodes up"
proof (induction d arbitrary: d')
  case (ReduceTreePattern cs r t)
  obtain cs' r' t' where d': "d' = ReduceTreePattern cs' r' t'" by (cases d')
  from ReduceTreePattern.prems d'
  consider (here) "cs' = cs @ [up]"
    | (below) i where "i < length cs" "length cs' = length cs" "attached up (cs ! i) (cs' ! i)"
        "take i cs' = take i cs" "drop (Suc i) cs' = drop (Suc i) cs"
    by (auto simp: list_ex_iff)
  then show ?case
  proof cases
    case here
    then show ?thesis by (simp add: d')
  next
    case below
    have a: "cs = take i cs @ cs ! i # drop (Suc i) cs"
      using below(1) by (rule id_take_nth_drop)
    have "cs' = take i cs' @ cs' ! i # drop (Suc i) cs'"
      using below(1,2) by (intro id_take_nth_drop) simp
    then have b: "cs' = take i cs @ cs' ! i # drop (Suc i) cs" using below(4,5) by simp
    have "cs ! i \<in> set cs" using below(1) by simp
    then have ih: "tree_nodes (cs' ! i) = tree_nodes (cs ! i) + tree_nodes up"
      using below(3) by (rule ReduceTreePattern.IH)
    have "sum_list (map tree_nodes cs') =
            sum_list (map tree_nodes (take i cs)) + tree_nodes (cs' ! i)
            + sum_list (map tree_nodes (drop (Suc i) cs))"
      by (subst b) simp
    moreover have "sum_list (map tree_nodes cs) =
            sum_list (map tree_nodes (take i cs)) + tree_nodes (cs ! i)
            + sum_list (map tree_nodes (drop (Suc i) cs))"
      by (subst a) simp
    ultimately show ?thesis using ih by (simp add: d')
  qed
qed

lemma insert_num_one_attached:
  "fst (InsertUpstreamIntoTree G up d) = 1 \<Longrightarrow> attached up d (snd (InsertUpstreamIntoTree G up d))"
proof (induction d)
  case (ReduceTreePattern cs r t)
  show ?case
  proof (cases "is_direct_upstream G (GetRootPattern up) r")
    case True
    have "attached up (ReduceTreePattern cs r t) (InsertChild (ReduceTreePattern cs r t) up)"
      by (rule attached_here)
    then show ?thesis using True by (simp add: InsertUpstreamIntoTree_unfold InsertChild_def)
  next
    case False
    let ?g = "\<lambda>c. fst (InsertUpstreamIntoTree G up c)"
    let ?h = "\<lambda>c. snd (InsertUpstreamIntoTree G up c)"
    from False ReduceTreePattern.prems have "sum_list (map ?g cs) = 1"
      by (simp add: InsertUpstreamIntoTree_unfold)
    then obtain xs c ys where sp: "cs = xs @ c # ys" "?g c = 1"
        "\<forall>x\<in>set xs. ?g x = 0" "\<forall>y\<in>set ys. ?g y = 0"
      using sum_list_one_split[of cs ?g] insert_num_nonneg by blast
    have "map ?h xs = xs" "map ?h ys = ys"
      using sp(3,4) by (simp_all add: map_idI insert_num_zero_same)
    then have m: "map ?h cs = xs @ ?h c # ys" using sp(1) by simp
    have "attached up c (?h c)" using ReduceTreePattern.IH[of c] sp(1,2) by simp
    then have "attached up (ReduceTreePattern (xs @ c # ys) r t)
                 (ReduceTreePattern (xs @ ?h c # ys) r t)"
      by (rule attached_below)
    then show ?thesis using False m sp(1) by (simp add: InsertUpstreamIntoTree_unfold)
  qed
qed

lemma insert_num_consumed:
  "(1 \<le> fst (InsertUpstreamIntoTree G up d)) = consumed_in G (GetRootPattern up) d"
proof (induction d)
  case (ReduceTreePattern cs r t)
  let ?g = "\<lambda>c. fst (InsertUpstreamIntoTree G up c)"
  have nn: "\<forall>c\<in>set cs. 0 \<le> ?g c" by (simp add: insert_num_nonneg)
  have "(1 \<le> sum_list (map ?g cs)) = (\<exists>c\<in>set cs. 1 \<le> ?g c)"
  proof
    assume "1 \<le> sum_list (map ?g cs)"
    show "\<exists>c\<in>set cs. 1 \<le> ?g c"
    proof (rule ccontr)
      assume "\<not> (\<exists>c\<in>set cs. 1 \<le> ?g c)"
      then have "\<forall>c\<in>set cs. ?g c = 0" using nn by force
      then have "sum_list (map ?g cs) = 0" by (simp add: sum_list_0 cong: map_cong)
      then show False using \<open>1 \<le> sum_list (map ?g cs)\<close> by simp
    qed
  next
    assume "\<exists>c\<in>set cs. 1 \<le> ?g c"
    then obtain c where c: "c \<in> set cs" "1 \<le> ?g c" by blast
    have "?g c \<le> sum_list (map ?g cs)"
      using c(1) nn by (intro member_le_sum_list) auto
    then show "1 \<le> sum_list (map ?g cs)" using c(2) by simp
  qed
  moreover have "(\<exists>c\<in>set cs. 1 \<le> ?g c) = (\<exists>c\<in>set cs. consumed_in G (GetRootPattern up) c)"
    using ReduceTreePattern.IH by blast
  ultimately have key: "(1 \<le> sum_list (map ?g cs)) =
      (\<exists>c\<in>set cs. consumed_in G (GetRootPattern up) c)"
    by simp
  show ?case
  proof (cases "is_direct_upstream G (GetRootPattern up) r")
    case True
    then show ?thesis by (simp add: InsertUpstreamIntoTree_unfold)
  next
    case False
    then show ?thesis by (simp add: InsertUpstreamIntoTree_unfold list_ex_iff key)
  qed
qed

lemma tree_graph_direct:
  "is_direct_upstream tree_graph (ReducePattern [10] tr) (ReducePattern ops tr') =
     (20 \<in> set ops \<or> 30 \<in> set ops)"
  by (auto simp: is_direct_upstream_def tree_graph_def GetReduceOp_def FindUserOp_def Let_def)

lemma two_children_sum:
  assumes nn: "\<forall>c\<in>set cs. 0 \<le> g c" and ij: "i < j" "j < length cs"
    and gi: "1 \<le> g (cs ! i)" and gj: "1 \<le> g (cs ! j)"
  shows "(2::int) \<le> sum_list (map g cs)"
proof -
  have i: "i < length cs" using ij by simp
  have cs: "cs = take i cs @ cs ! i # drop (Suc i) cs" using i by (rule id_take_nth_drop)
  have "cs ! j = drop (Suc i) cs ! (j - Suc i)" using ij by simp
  moreover have "j - Suc i < length (drop (Suc i) cs)" using ij by simp
  ultimately have mem: "cs ! j \<in> set (drop (Suc i) cs)" by (metis nth_mem)
  have nd: "\<forall>c\<in>set (drop (Suc i) cs). 0 \<le> g c" using nn by (meson in_set_dropD)
  have nt: "\<forall>c\<in>set (take i cs). 0 \<le> g c" using nn by (meson in_set_takeD)
  have a: "0 \<le> sum_list (map g (take i cs))" by (rule sum_list_nonneg) (use nt in auto)
  have "g (cs ! j) \<le> sum_list (map g (drop (Suc i) cs))"
    using mem nd by (intro member_le_sum_list) auto
  then have b: "1 \<le> sum_list (map g (drop (Suc i) cs))" using gj by simp
  have "sum_list (map g cs) =
          sum_list (map g (take i cs)) + g (cs ! i) + sum_list (map g (drop (Suc i) cs))"
    by (subst cs) simp
  then show ?thesis using a b gi by linarith
qed

subsection \<open>The attachment points of an upstream reduce tree\<close>

declare all_paths.simps [simp del]

lemma is_attach_point_Nil:
  "is_attach_point G up (ReduceTreePattern cs r t) [] =
     is_direct_upstream G (GetRootPattern up) r"
  by (simp add: is_attach_point_def)

lemma upt_Suc_shift: "[0..<Suc n] = 0 # map Suc [0..<n]"
  by (simp add: upt_conv_Cons map_Suc_upt del: upt_Suc)

lemma is_attach_point_Cons:
  assumes "i < length cs"
  shows "is_attach_point G up (ReduceTreePattern cs r t) (i # p) =
     (\<not> is_direct_upstream G (GetRootPattern up) r \<and> is_attach_point G up (cs ! i) p)"
proof -
  let ?d = "ReduceTreePattern cs r t"
  let ?ok = "\<lambda>d q k. case subtree_at (take k q) d of
      None \<Rightarrow> True
    | Some ancestor \<Rightarrow> \<not> is_direct_upstream G (GetRootPattern up) (GetRootPattern ancestor)"
  have "list_all (?ok ?d (i # p)) [0..<Suc (length p)] =
        (?ok ?d (i # p) 0 \<and> list_all (\<lambda>k. ?ok ?d (i # p) (Suc k)) [0..<length p])"
    unfolding upt_Suc_shift by (simp add: list.pred_map comp_def del: upt_Suc)
  moreover have "?ok ?d (i # p) 0 = (\<not> is_direct_upstream G (GetRootPattern up) r)"
    by simp
  moreover have "\<And>k. ?ok ?d (i # p) (Suc k) = ?ok (cs ! i) p k"
    using assms by simp
  ultimately have all: "list_all (?ok ?d (i # p)) [0..<length (i # p)] =
        (\<not> is_direct_upstream G (GetRootPattern up) r \<and>
         list_all (?ok (cs ! i) p) [0..<length p])"
    by simp
  have sub: "subtree_at (i # p) ?d = subtree_at p (cs ! i)" using assms by simp
  show ?thesis
    unfolding is_attach_point_def sub all by (auto split: option.splits)
qed

lemma is_attach_point_out:
  "\<not> i < length cs \<Longrightarrow> \<not> is_attach_point G up (ReduceTreePattern cs r t) (i # p)"
  by (simp add: is_attach_point_def)


lemma concat_map_Nil: "concat (map (\<lambda>i. []) xs) = []"
  by (induction xs) simp_all

lemma attach_points_unfold:
  "attach_points G up (ReduceTreePattern cs r t) =
     (if is_direct_upstream G (GetRootPattern up) r then [[]]
      else concat (map (\<lambda>i. map ((#) i) (attach_points G up (cs ! i))) [0..<length cs]))"
proof -
  let ?d = "ReduceTreePattern cs r t"
  let ?P = "is_attach_point G up ?d"
  let ?direct = "is_direct_upstream G (GetRootPattern up) r"
  have step: "filter ?P (map ((#) i) (all_paths (cs ! i))) =
      (if ?direct then [] else map ((#) i) (attach_points G up (cs ! i)))"
    if "i \<in> set [0..<length cs]" for i
  proof -
    from that have i: "i < length cs" by simp
    show ?thesis
      by (simp add: filter_map comp_def is_attach_point_Cons[OF i] attach_points_def)
  qed
  have "attach_points G up ?d =
      (if ?direct then [[]] else []) @
      concat (map (\<lambda>i. filter ?P (map ((#) i) (all_paths (cs ! i)))) [0..<length cs])"
    by (simp add: attach_points_def all_paths.simps is_attach_point_Nil filter_concat comp_def)
  also have "map (\<lambda>i. filter ?P (map ((#) i) (all_paths (cs ! i)))) [0..<length cs] =
      map (\<lambda>i. if ?direct then [] else map ((#) i) (attach_points G up (cs ! i)))
        [0..<length cs]"
    by (rule map_cong) (simp_all only: step)
  finally show ?thesis by (simp add: concat_map_Nil)
qed

lemma int_sum_list_map: "int (sum_list (map f xs)) = sum_list (map (\<lambda>x. int (f x)) xs)"
  by (induction xs) simp_all

lemma children_by_index: "map (\<lambda>i. f (cs ! i)) [0..<length cs] = map f cs"
  by (rule nth_equalityI) simp_all

lemma insert_num_attach_points:
  "fst (InsertUpstreamIntoTree G up d) = int (length (attach_points G up d))"
proof (induction d)
  case (ReduceTreePattern cs r t)
  show ?case
  proof (cases "is_direct_upstream G (GetRootPattern up) r")
    case True
    then show ?thesis by (simp add: InsertUpstreamIntoTree_unfold attach_points_unfold)
  next
    case False
    have "map (\<lambda>c. fst (InsertUpstreamIntoTree G up c)) cs =
          map (\<lambda>c. int (length (attach_points G up c))) cs"
      by (rule map_cong) (simp_all add: ReduceTreePattern.IH)
    then have a: "sum_list (map (\<lambda>c. fst (InsertUpstreamIntoTree G up c)) cs) =
          sum_list (map (\<lambda>c. int (length (attach_points G up c))) cs)"
      by (rule arg_cong)
    have "length (concat (map (\<lambda>i. map ((#) i) (attach_points G up (cs ! i)))
              [0..<length cs])) =
          sum_list (map (\<lambda>i. length (attach_points G up (cs ! i))) [0..<length cs])"
      by (simp add: length_concat comp_def)
    also have "map (\<lambda>i. length (attach_points G up (cs ! i))) [0..<length cs] =
          map (\<lambda>c. length (attach_points G up c)) cs"
      by (rule children_by_index)
    finally have b: "int (length (concat (map (\<lambda>i. map ((#) i) (attach_points G up (cs ! i)))
              [0..<length cs]))) =
          sum_list (map (\<lambda>c. int (length (attach_points G up c))) cs)"
      by (simp only: int_sum_list_map)
    show ?thesis
      unfolding InsertUpstreamIntoTree_unfold attach_points_unfold
      using False by (simp only: if_False fst_conv a b)
  qed
qed

lemma concat_upt_singleton:
  "concat (map g [0..<n]) = [p] \<Longrightarrow> \<exists>i<n. g i = [p] \<and> (\<forall>j<n. j \<noteq> i \<longrightarrow> g j = [])"
proof (induction n)
  case 0
  then show ?case by simp
next
  case (Suc n)
  then have eq: "concat (map g [0..<n]) @ g n = [p]" by simp
  show ?case
  proof (cases "g n = []")
    case True
    with eq have "concat (map g [0..<n]) = [p]" by simp
    then obtain i where i: "i < n" "g i = [p]" "\<forall>j<n. j \<noteq> i \<longrightarrow> g j = []"
      using Suc.IH by blast
    have "\<forall>j<Suc n. j \<noteq> i \<longrightarrow> g j = []"
    proof (intro allI impI)
      fix j assume "j < Suc n" "j \<noteq> i"
      then show "g j = []" using i(3) True by (cases "j = n") simp_all
    qed
    then show ?thesis using i(1,2) by (intro exI[of _ i]) simp
  next
    case False
    with eq have a: "concat (map g [0..<n]) = []" and b: "g n = [p]"
      by (auto simp: append_eq_Cons_conv)
    have "\<forall>j<Suc n. j \<noteq> n \<longrightarrow> g j = []"
    proof (intro allI impI)
      fix j assume "j < Suc n" "j \<noteq> n"
      then have "j \<in> set [0..<n]" by simp
      then show "g j = []" using a by simp
    qed
    then show ?thesis using b by (intro exI[of _ n]) simp
  qed
qed

lemma insert_result_at_attach_point:
  "attach_points G up d = [p] \<Longrightarrow> snd (InsertUpstreamIntoTree G up d) = insert_at p up d"
proof (induction d arbitrary: p)
  case (ReduceTreePattern cs r t)
  show ?case
  proof (cases "is_direct_upstream G (GetRootPattern up) r")
    case True
    then have "p = []" using ReduceTreePattern.prems by (simp add: attach_points_unfold)
    then show ?thesis using True by (simp add: InsertUpstreamIntoTree_unfold InsertChild_def)
  next
    case False
    define g where "g = (\<lambda>i. map ((#) i) (attach_points G up (cs ! i)))"
    from False ReduceTreePattern.prems have "concat (map g [0..<length cs]) = [p]"
      unfolding g_def by (simp add: attach_points_unfold)
    then have "\<exists>i<length cs. g i = [p] \<and> (\<forall>j<length cs. j \<noteq> i \<longrightarrow> g j = [])"
      by (rule concat_upt_singleton)
    then obtain i where i: "i < length cs" and gi: "g i = [p]"
        and gj: "\<And>j. j < length cs \<Longrightarrow> j \<noteq> i \<Longrightarrow> g j = []"
      by blast
    from gi obtain q where q: "attach_points G up (cs ! i) = [q]" and pq: "p = i # q"
      unfolding g_def by (cases "attach_points G up (cs ! i)") auto
    have "cs ! i \<in> set cs" using i by simp
    then have here: "snd (InsertUpstreamIntoTree G up (cs ! i)) = insert_at q up (cs ! i)"
      using q by (rule ReduceTreePattern.IH)
    have other: "snd (InsertUpstreamIntoTree G up (cs ! j)) = cs ! j"
      if "j < length cs" "j \<noteq> i" for j
    proof -
      from that have "g j = []" by (rule gj)
      then have "attach_points G up (cs ! j) = []" unfolding g_def by simp
      then have "fst (InsertUpstreamIntoTree G up (cs ! j)) = 0"
        by (simp add: insert_num_attach_points)
      then show ?thesis by (rule insert_num_zero_same)
    qed
    have m: "map (\<lambda>c. snd (InsertUpstreamIntoTree G up c)) cs =
          cs[i := insert_at q up (cs ! i)]"
    proof (rule nth_equalityI)
      show "length (map (\<lambda>c. snd (InsertUpstreamIntoTree G up c)) cs) =
            length (cs[i := insert_at q up (cs ! i)])" by simp
    next
      fix j assume "j < length (map (\<lambda>c. snd (InsertUpstreamIntoTree G up c)) cs)"
      then have j: "j < length cs" by simp
      show "map (\<lambda>c. snd (InsertUpstreamIntoTree G up c)) cs ! j =
            cs[i := insert_at q up (cs ! i)] ! j"
      proof (cases "j = i")
        case True
        then show ?thesis using j here by simp
      next
        case False
        then show ?thesis using j other[OF j False] by simp
      qed
    qed
    have "snd (InsertUpstreamIntoTree G up (ReduceTreePattern cs r t)) =
          ReduceTreePattern (cs[i := insert_at q up (cs ! i)]) r t"
      unfolding InsertUpstreamIntoTree_unfold using False by (simp only: if_False snd_conv m)
    also have "\<dots> = insert_at (i # q) up (ReduceTreePattern cs r t)"
      using i by simp
    finally show ?thesis unfolding pq .
  qed
qed

lemma all_paths_iff: "(p \<in> set (all_paths d)) = (subtree_at p d \<noteq> None)"
proof (induction d arbitrary: p)
  case (ReduceTreePattern cs r t)
  show ?case
  proof (cases p)
    case Nil
    then show ?thesis by (simp add: all_paths.simps)
  next
    case (Cons i q)
    have "(i # q \<in> set (all_paths (ReduceTreePattern cs r t))) =
          (i < length cs \<and> q \<in> set (all_paths (cs ! i)))"
      by (auto simp: all_paths.simps)
    also have "\<dots> = (i < length cs \<and> subtree_at q (cs ! i) \<noteq> None)"
      using ReduceTreePattern.IH[of "cs ! i" q] by auto
    finally show ?thesis using Cons by simp
  qed
qed

lemma attach_points_iff:
  "(p \<in> set (attach_points G up d)) = is_attach_point G up d p"
  by (auto simp: attach_points_def all_paths_iff is_attach_point_def split: option.splits)


lemma distinct_concat_upt:
  "(\<And>i. i < n \<Longrightarrow> distinct (g i)) \<Longrightarrow>
   (\<And>i j. i < j \<Longrightarrow> j < n \<Longrightarrow> set (g i) \<inter> set (g j) = {}) \<Longrightarrow>
   distinct (concat (map g [0..<n]))"
proof (induction n)
  case 0
  then show ?case by simp
next
  case (Suc n)
  have a: "distinct (concat (map g [0..<n]))"
    by (rule Suc.IH) (simp_all add: Suc.prems)
  have b: "distinct (g n)" by (simp add: Suc.prems)
  have c: "set (concat (map g [0..<n])) \<inter> set (g n) = {}"
  proof (rule ccontr)
    assume "set (concat (map g [0..<n])) \<inter> set (g n) \<noteq> {}"
    then obtain x i where "i < n" "x \<in> set (g i)" "x \<in> set (g n)" by auto
    moreover from \<open>i < n\<close> have "set (g i) \<inter> set (g n) = {}" by (rule Suc.prems(2)) simp
    ultimately show False by blast
  qed
  show ?case using a b c by simp
qed

lemma distinct_all_paths: "distinct (all_paths d)"
proof (induction d)
  case (ReduceTreePattern cs r t)
  let ?g = "\<lambda>i. map ((#) i) (all_paths (cs ! i))"
  have "distinct (concat (map ?g [0..<length cs]))"
  proof (rule distinct_concat_upt)
    fix i assume "i < length cs"
    then have "cs ! i \<in> set cs" by simp
    then have "distinct (all_paths (cs ! i))" by (rule ReduceTreePattern.IH)
    then show "distinct (?g i)" by (simp add: distinct_map)
  next
    fix i j :: nat assume "i < j"
    then show "set (?g i) \<inter> set (?g j) = {}" by auto
  qed
  moreover have "[] \<notin> set (concat (map ?g [0..<length cs]))" by auto
  ultimately show ?case by (simp add: all_paths.simps)
qed

lemma distinct_attach_points: "distinct (attach_points G up d)"
  by (simp add: attach_points_def distinct_all_paths)

lemma subtree_at_insert_at:
  "subtree_at p d = Some node \<Longrightarrow> subtree_at p (insert_at p up d) = Some (InsertChild node up)"
proof (induction p arbitrary: d)
  case Nil
  then show ?case by simp
next
  case (Cons i q)
  from Cons.prems have i: "i < length (childs d)"
    and sub: "subtree_at q (childs d ! i) = Some node"
    by (simp_all split: if_splits)
  from sub have "subtree_at q (insert_at q up (childs d ! i)) = Some (InsertChild node up)"
    by (rule Cons.IH)
  then show ?case using i by simp
qed

lemma attach_point_node:
  "is_attach_point G up d p \<Longrightarrow>
   \<exists>node. subtree_at p d = Some node \<and>
          is_direct_upstream G (GetRootPattern up) (GetRootPattern node)"
  by (cases "subtree_at p d") (simp_all add: is_attach_point_def)

lemma consumed_in_attach_points:
  "consumed_in G (GetRootPattern up) d = (attach_points G up d \<noteq> [])"
proof -
  have "consumed_in G (GetRootPattern up) d = (1 \<le> int (length (attach_points G up d)))"
    by (simp only: insert_num_consumed[symmetric] insert_num_attach_points)
  also have "\<dots> = (attach_points G up d \<noteq> [])"
    by (cases "attach_points G up d") simp_all
  finally show ?thesis .
qed


text \<open>
  Claim C2 (amended). An attachment point of the upstream tree is a node of the
  downstream tree whose root uses the result of the upstream root reduction while the
  root of none of its ancestors does; the insertion search finds exactly these nodes.
  The merge succeeds exactly when there is one attachment point; the result is then the
  downstream tree (with the merged tracker) with the upstream tree appended to the
  children of that node, and its node count is that of the downstream tree plus that of
  the upstream tree, which is one more when the upstream tree has no children. For
  every other number of attachment points the merge fails with
  \<open>PreconditionNotMet\<close>, reporting the number, and returns no pattern: the number is 0
  when no node uses the upstream result, and at least 2 when the downstream root is not
  a direct consumer and the result is used in two different children.
\<close>

theorem ReduceTree_merge_insert_once:
  "(let start = ReduceTreePattern (childs down) (GetRootPattern down)
                  (merge_tracker (rt_tracker up) (rt_tracker down));
        pts = attach_points G up start
    in distinct pts
     \<and> (q \<in> set pts) = is_attach_point G up start q
     \<and> (\<exists>res. MergePattern G (ReduceTree up) (ReduceTree down) = Inr res) = (length pts = 1)
     \<and> (pts = [p] \<longrightarrow>
          MergePattern G (ReduceTree up) (ReduceTree down) =
            Inr (ReduceTree (insert_at p up start)) \<and>
          (\<exists>node. subtree_at p start = Some node \<and>
             is_direct_upstream G (GetRootPattern up) (GetRootPattern node) \<and>
             subtree_at p (insert_at p up start) = Some (InsertChild node up)) \<and>
          tree_nodes (insert_at p up start) = tree_nodes down + tree_nodes up \<and>
          (childs up = [] \<longrightarrow> tree_nodes (insert_at p up start) = tree_nodes down + 1))
     \<and> (length pts \<noteq> 1 \<longrightarrow>
          MergePattern G (ReduceTree up) (ReduceTree down) =
            Inl (PreconditionNotMet ''Must insert only once, but insert %d''
                   (int (length pts))))
     \<and> (\<not> consumed_in G (GetRootPattern up) down \<longrightarrow> pts = [])
     \<and> (\<not> is_direct_upstream G (GetRootPattern up) (GetRootPattern down) \<and>
         i < j \<and> j < length (childs down) \<and>
         consumed_in G (GetRootPattern up) (childs down ! i) \<and>
         consumed_in G (GetRootPattern up) (childs down ! j) \<longrightarrow> 2 \<le> length pts))"
proof -
  obtain cs r t where down: "down = ReduceTreePattern cs r t" by (cases down)
  define start where "start = ReduceTreePattern cs r (merge_tracker (rt_tracker up) t)"
  define pts where "pts = attach_points G up start"
  define n where "n = fst (InsertUpstreamIntoTree G up start)"
  define res where "res = snd (InsertUpstreamIntoTree G up start)"
  have n: "n = int (length pts)" unfolding n_def pts_def by (rule insert_num_attach_points)
  have nodes_start: "tree_nodes start = tree_nodes down" by (simp add: start_def down)
  have c1: "distinct pts" unfolding pts_def by (rule distinct_attach_points)
  have c2: "(q \<in> set pts) = is_attach_point G up start q"
    unfolding pts_def by (rule attach_points_iff)
  have ok: "MergePattern G (ReduceTree up) (ReduceTree down) = Inr (ReduceTree res)"
    if "length pts = 1"
    using that n
    by (simp add: MergePatternImpl_ReduceTree_ReduceTree_def Let_def down start_def n_def
          res_def)
  have c5: "MergePattern G (ReduceTree up) (ReduceTree down) =
      Inl (PreconditionNotMet ''Must insert only once, but insert %d'' (int (length pts)))"
    if "length pts \<noteq> 1"
  proof -
    from that n have "n \<noteq> 1" by simp
    then have "MergePattern G (ReduceTree up) (ReduceTree down) =
        Inl (PreconditionNotMet ''Must insert only once, but insert %d'' n)"
      by (simp add: MergePatternImpl_ReduceTree_ReduceTree_def Let_def down start_def n_def)
    then show ?thesis by (simp only: n)
  qed
  have c3: "(\<exists>res. MergePattern G (ReduceTree up) (ReduceTree down) = Inr res) =
      (length pts = 1)"
  proof (cases "length pts = 1")
    case True
    then show ?thesis using ok by simp
  next
    case False
    then show ?thesis using c5 by simp
  qed
  have c4: "MergePattern G (ReduceTree up) (ReduceTree down) =
        Inr (ReduceTree (insert_at p up start)) \<and>
      (\<exists>node. subtree_at p start = Some node \<and>
         is_direct_upstream G (GetRootPattern up) (GetRootPattern node) \<and>
         subtree_at p (insert_at p up start) = Some (InsertChild node up)) \<and>
      tree_nodes (insert_at p up start) = tree_nodes down + tree_nodes up \<and>
      (childs up = [] \<longrightarrow> tree_nodes (insert_at p up start) = tree_nodes down + 1)"
    if one: "pts = [p]"
  proof -
    from one have len: "length pts = 1" by simp
    have r: "res = insert_at p up start"
      unfolding res_def using one[unfolded pts_def] by (rule insert_result_at_attach_point)
    have m: "MergePattern G (ReduceTree up) (ReduceTree down) =
        Inr (ReduceTree (insert_at p up start))"
      using ok[OF len] by (simp only: r)
    from one have "p \<in> set (attach_points G up start)" by (simp add: pts_def)
    then have "is_attach_point G up start p" by (simp only: attach_points_iff)
    then obtain node where node: "subtree_at p start = Some node"
        "is_direct_upstream G (GetRootPattern up) (GetRootPattern node)"
      using attach_point_node by blast
    from node(1) have ins: "subtree_at p (insert_at p up start) = Some (InsertChild node up)"
      by (rule subtree_at_insert_at)
    from len n have "fst (InsertUpstreamIntoTree G up start) = 1" by (simp add: n_def)
    then have "attached up start res" unfolding res_def by (rule insert_num_one_attached)
    then have "tree_nodes res = tree_nodes start + tree_nodes up" by (rule attached_nodes)
    then have nodes: "tree_nodes (insert_at p up start) = tree_nodes down + tree_nodes up"
      by (simp only: r nodes_start)
    have leafc: "childs up = [] \<Longrightarrow> tree_nodes up = 1" by (cases up) simp
    show ?thesis using m node ins nodes leafc by simp
  qed
  have c6: "pts = []" if "\<not> consumed_in G (GetRootPattern up) down"
  proof -
    from that have "\<not> consumed_in G (GetRootPattern up) start" by (simp add: down start_def)
    then show ?thesis unfolding pts_def by (simp add: consumed_in_attach_points)
  qed
  have c7: "2 \<le> length pts"
    if h: "\<not> is_direct_upstream G (GetRootPattern up) (GetRootPattern down)"
       "i < j" "j < length (childs down)"
       "consumed_in G (GetRootPattern up) (childs down ! i)"
       "consumed_in G (GetRootPattern up) (childs down ! j)"
  proof -
    let ?g = "\<lambda>c. fst (InsertUpstreamIntoTree G up c)"
    have "n = sum_list (map ?g cs)"
      using h(1) by (simp add: n_def start_def down InsertUpstreamIntoTree_unfold)
    moreover have "2 \<le> sum_list (map ?g cs)"
    proof (rule two_children_sum)
      show "\<forall>c\<in>set cs. 0 \<le> ?g c" by (simp add: insert_num_nonneg)
      show "i < j" by (rule h(2))
      show "j < length cs" using h(3) by (simp add: down)
      show "1 \<le> ?g (cs ! i)" using h(4) by (simp add: insert_num_consumed down)
      show "1 \<le> ?g (cs ! j)" using h(5) by (simp add: insert_num_consumed down)
    qed
    ultimately show ?thesis using n by simp
  qed
  have st: "ReduceTreePattern (childs down) (GetRootPattern down)
              (merge_tracker (rt_tracker up) (rt_tracker down)) = start"
    by (simp add: down start_def)
  show ?thesis
    unfolding Let_def st pts_def[symmetric]
    using c1 c2 c3 c4 c5 c6 c7 by blast
qed


theorem ReduceTree_merge_insert_once_witness:
  "attach_points tree_graph up_leaf
     (ReduceTreePattern (childs down_deep) (GetRootPattern down_deep)
        (merge_tracker (rt_tracker up_leaf) (rt_tracker down_deep))) = [[Suc 0]]
   \<and> MergePattern tree_graph (ReduceTree up_leaf) (ReduceTree down_deep) =
     Inr (ReduceTree (ReduceTreePattern
            [leaf 50, ReduceTreePattern [up_leaf] (ReducePattern [20] new_tracker) new_tracker]
            (ReducePattern [40] new_tracker) (merge_tracker new_tracker new_tracker)))
   \<and> MergePattern tree_graph (ReduceTree up_leaf) (ReduceTree (leaf 40)) =
     Inl (PreconditionNotMet ''Must insert only once, but insert %d'' 0)
   \<and> MergePattern tree_graph (ReduceTree up_leaf) (ReduceTree down_two_children) =
     Inl (PreconditionNotMet ''Must insert only once, but insert %d'' 2)"
  using ReduceTree_merge_insert_once [where down = down_deep and up = up_leaf
          and G = tree_graph and p = "[Suc 0]" and q = "[Suc 0]" and i = 0 and j = 1]
        ReduceTree_merge_insert_once [where down = "leaf 40" and up = up_leaf
          and G = tree_graph and p = "[]" and q = "[]" and i = 0 and j = 1]
        ReduceTree_merge_insert_once [where down = down_two_children and up = up_leaf
          and G = tree_graph and p = "[]" and q = "[]" and i = 0 and j = 1]
  by (simp add: Let_def leaf_def up_leaf_def down_deep_def down_two_children_def
        tree_graph_direct attach_points_unfold InsertChild_def)

text \<open>
  Claim C2 as stated fails where it says the node count grows by exactly one: an
  upstream tree with one child, inserted under a single downstream node, takes the
  node count from 1 to 3.
\<close>

theorem ReduceTree_merge_node_count_counterexample:
  "MergePattern tree_graph (ReduceTree up_with_child) (ReduceTree (leaf 20)) =
     Inr (ReduceTree (ReduceTreePattern [up_with_child] (ReducePattern [20] new_tracker)
            (merge_tracker new_tracker new_tracker)))
   \<and> tree_nodes (ReduceTreePattern [up_with_child] (ReducePattern [20] new_tracker)
        (merge_tracker new_tracker new_tracker)) = 3
   \<and> tree_nodes (leaf 20) = 1"
  by (simp add: MergePatternImpl_ReduceTree_ReduceTree_def Let_def leaf_def up_with_child_def
        tree_graph_direct InsertUpstreamIntoTree_unfold)

text \<open>
  Claim C3 (amended). At every node the traversal tests the node's own root first. If
  it is a direct consumer of the upstream root's result, the upstream tree is attached
  there, the number 1 is returned and the children are not visited. Only otherwise
  every child is searched in order, the numbers are added up and each child is replaced
  by its searched version.
\<close>

theorem InsertUpstreamIntoTree_root_first:
  "(is_direct_upstream G (GetRootPattern up) r \<longrightarrow>
      InsertUpstreamIntoTree G up (ReduceTreePattern cs r t) =
        (1, ReduceTreePattern (cs @ [up]) r t))
   \<and> (\<not> is_direct_upstream G (GetRootPattern up) r \<longrightarrow>
      InsertUpstreamIntoTree G up (ReduceTreePattern cs r t) =
        (sum_list (map (\<lambda>c. fst (InsertUpstreamIntoTree G up c)) cs),
         ReduceTreePattern (map (\<lambda>c. snd (InsertUpstreamIntoTree G up c)) cs) r t))"
  by (simp add: InsertUpstreamIntoTree_unfold)

theorem InsertUpstreamIntoTree_root_first_witness:
  "InsertUpstreamIntoTree tree_graph up_leaf down_root_and_child =
     (1, ReduceTreePattern [leaf 30, up_leaf] (ReducePattern [20] new_tracker) new_tracker)
   \<and> InsertUpstreamIntoTree tree_graph up_leaf down_two_children =
     (2, ReduceTreePattern
           [ReduceTreePattern [up_leaf] (ReducePattern [20] new_tracker) new_tracker,
            ReduceTreePattern [up_leaf] (ReducePattern [30] new_tracker) new_tracker]
           (ReducePattern [40] new_tracker) new_tracker)"
  using InsertUpstreamIntoTree_root_first
          [of tree_graph up_leaf "ReducePattern [20] new_tracker" "[leaf 30]" new_tracker]
        InsertUpstreamIntoTree_root_first
          [of tree_graph up_leaf "ReducePattern [40] new_tracker" "[leaf 20, leaf 30]"
              new_tracker]
  by (simp add: leaf_def up_leaf_def down_root_and_child_def down_two_children_def
        tree_graph_direct InsertUpstreamIntoTree_unfold)

text \<open>
  Claim C3 as stated fails: where both the root and a child of the downstream tree are
  direct consumers, the source attaches at the root only and leaves the child as it
  was, while a search of the children first attaches in the child as well.
\<close>

theorem InsertUpstreamIntoTree_children_first_counterexample:
  "InsertUpstreamIntoTree tree_graph up_leaf down_root_and_child =
     (1, ReduceTreePattern [leaf 30, up_leaf] (ReducePattern [20] new_tracker) new_tracker)
   \<and> InsertUpstreamIntoTree_children_first tree_graph up_leaf down_root_and_child =
     (2, ReduceTreePattern
           [ReduceTreePattern [up_leaf] (ReducePattern [30] new_tracker) new_tracker, up_leaf]
           (ReducePattern [20] new_tracker) new_tracker)
   \<and> InsertUpstreamIntoTree tree_graph up_leaf down_root_and_child \<noteq>
     InsertUpstreamIntoTree_children_first tree_graph up_leaf down_root_and_child"
  by (simp add: leaf_def up_leaf_def down_root_and_child_def tree_graph_direct
        InsertUpstreamIntoTree_unfold InsertChild_def Let_def)

section \<open>The op set of a merged pattern\<close>

lemma set_UniqueConcatVector [simp]:
  "set (UniqueConcatVector first second) = set first \<union> set second"
  by (auto simp: UniqueConcatVector_def)

lemma AnyFirstInSecond_iff: "AnyFirstInSecond first second = (set first \<inter> set second \<noteq> {})"
  by (auto simp: AnyFirstInSecond_def list_ex_iff)

lemma set_fold_UniqueConcatVector:
  "set (fold (\<lambda>child result. UniqueConcatVector result (f child)) cs acc) =
     set acc \<union> (\<Union>c\<in>set cs. set (f c))"
  by (induction cs arbitrary: acc) auto

lemma set_rt_ops:
  "set (rt_ops (ReduceTreePattern cs r t)) = set (r_ops r) \<union> (\<Union>c\<in>set cs. set (rt_ops c))"
  by (simp add: set_fold_UniqueConcatVector)

declare rt_ops.simps [simp del]

lemma MergePatternImpl_Trivial_ReduceTree_unfold:
  "MergePatternImpl_Trivial_ReduceTree G first (ReduceTreePattern old_childs root_p tr) =
     ReduceTreePattern
       (map (\<lambda>old_child. FusePatternIfConnected (MergePatternImpl_Trivial_ReduceTree G)
               rt_ops first old_child (FindDownstreamOps G (sink_op first))) old_childs)
       (FusePatternIfConnected MergePatternImpl_Trivial_Reduce r_ops first root_p
          (FindDownstreamOps G (sink_op first)))
       (merge_tracker (t_tracker first) tr)"
  by (simp add: Let_def FusePatternIfConnected_def)

lemma set_ops_Trivial_ReduceTree:
  "set (rt_ops (MergePatternImpl_Trivial_ReduceTree G first d)) =
     (if AnyFirstInSecond (FindDownstreamOps G (sink_op first)) (rt_ops d)
      then set (t_ops first) \<union> set (rt_ops d) else set (rt_ops d))"
proof (induction d)
  case (ReduceTreePattern cs r t)
  let ?c = "FindDownstreamOps G (sink_op first)"
  let ?new = "\<lambda>old_child. if AnyFirstInSecond ?c (rt_ops old_child)
      then MergePatternImpl_Trivial_ReduceTree G first old_child else old_child"
  have child: "set (rt_ops (?new x)) =
      (if AnyFirstInSecond ?c (rt_ops x) then set (t_ops first) \<union> set (rt_ops x)
       else set (rt_ops x))" if "x \<in> set cs" for x
    using ReduceTreePattern.IH[OF that] by simp
  have root_ops: "set (r_ops (FusePatternIfConnected MergePatternImpl_Trivial_Reduce r_ops first r ?c)) =
      (if AnyFirstInSecond ?c (r_ops r) then set (t_ops first) \<union> set (r_ops r)
       else set (r_ops r))"
    by (simp add: FusePatternIfConnected_def MergePatternImpl_Trivial_Reduce_def)
  have conn: "AnyFirstInSecond ?c (rt_ops (ReduceTreePattern cs r t)) =
      (AnyFirstInSecond ?c (r_ops r) \<or> (\<exists>x\<in>set cs. AnyFirstInSecond ?c (rt_ops x)))"
    by (auto simp: AnyFirstInSecond_iff set_rt_ops)
  have res: "MergePatternImpl_Trivial_ReduceTree G first (ReduceTreePattern cs r t) =
      ReduceTreePattern (map ?new cs)
        (FusePatternIfConnected MergePatternImpl_Trivial_Reduce r_ops first r ?c)
        (merge_tracker (t_tracker first) t)"
    by (simp add: Let_def)
  have "set (rt_ops (MergePatternImpl_Trivial_ReduceTree G first (ReduceTreePattern cs r t))) =
      set (r_ops (FusePatternIfConnected MergePatternImpl_Trivial_Reduce r_ops first r ?c))
      \<union> (\<Union>x\<in>set cs. set (rt_ops (?new x)))"
    unfolding res set_rt_ops set_map by blast
  also have "\<dots> = (if AnyFirstInSecond ?c (r_ops r) then set (t_ops first) \<union> set (r_ops r)
       else set (r_ops r))
      \<union> (\<Union>x\<in>set cs. if AnyFirstInSecond ?c (rt_ops x)
             then set (t_ops first) \<union> set (rt_ops x) else set (rt_ops x))"
    using child root_ops by simp
  also have "\<dots> = (if AnyFirstInSecond ?c (rt_ops (ReduceTreePattern cs r t))
      then set (t_ops first) \<union> set (rt_ops (ReduceTreePattern cs r t))
      else set (rt_ops (ReduceTreePattern cs r t)))"
    unfolding conn set_rt_ops by (auto split: if_splits)
  finally show ?case .
qed

lemma set_ops_Trivial_ReduceTreePlusTrivial:
  "AnyFirstInSecond (FindDownstreamOps G (sink_op first)) (rtt_ops second) \<Longrightarrow>
   set (rtt_ops (MergePatternImpl_Trivial_ReduceTreePlusTrivial G first second)) =
     set (t_ops first) \<union> set (rtt_ops second)"
  by (auto simp: MergePatternImpl_Trivial_ReduceTreePlusTrivial_def Let_def rtt_ops_def
        FusePatternIfConnected_def set_ops_Trivial_ReduceTree AnyFirstInSecond_iff
        MergePatternImpl_Trivial_Trivial_def split: if_splits)

lemma attached_split:
  assumes "attached up (ReduceTreePattern cs r t) (ReduceTreePattern cs' r' t')"
  shows "r' = r \<and> (cs' = cs @ [up] \<or>
      (\<exists>xs c c' ys. cs = xs @ c # ys \<and> cs' = xs @ c' # ys \<and> attached up c c'))"
proof (cases "cs' = cs @ [up]")
  case True
  then show ?thesis using assms by simp
next
  case False
  with assms obtain i where i: "i < length cs" "length cs' = length cs"
      "attached up (cs ! i) (cs' ! i)"
      "take i cs' = take i cs" "drop (Suc i) cs' = drop (Suc i) cs"
    by (auto simp: list_ex_iff)
  have a: "cs = take i cs @ cs ! i # drop (Suc i) cs"
    using i(1) by (rule id_take_nth_drop)
  have "cs' = take i cs' @ cs' ! i # drop (Suc i) cs'"
    using i(1,2) by (intro id_take_nth_drop) simp
  then have b: "cs' = take i cs @ cs' ! i # drop (Suc i) cs" using i(4,5) by simp
  from a b i(3) have "cs = take i cs @ cs ! i # drop (Suc i) cs \<and>
      cs' = take i cs @ cs' ! i # drop (Suc i) cs \<and> attached up (cs ! i) (cs' ! i)"
    by (intro conjI)
  then have ex: "\<exists>xs c c' ys. cs = xs @ c # ys \<and> cs' = xs @ c' # ys \<and> attached up c c'"
    by (intro exI)
  have "r' = r" using assms by simp
  then show ?thesis using ex by (intro conjI disjI2)
qed

lemma attached_ops: "attached up d d' \<Longrightarrow> set (rt_ops d') = set (rt_ops d) \<union> set (rt_ops up)"
proof (induction d arbitrary: d')
  case (ReduceTreePattern cs r t)
  obtain cs' r' t' where d': "d' = ReduceTreePattern cs' r' t'" by (cases d')
  from ReduceTreePattern.prems have sp: "r' = r \<and> (cs' = cs @ [up] \<or>
      (\<exists>xs c c' ys. cs = xs @ c # ys \<and> cs' = xs @ c' # ys \<and> attached up c c'))"
    unfolding d' by (rule attached_split)
  then have r: "r' = r" by (rule conjunct1)
  show ?case
  proof (cases "cs' = cs @ [up]")
    case True
    have "(\<Union>z\<in>set (cs @ [up]). set (rt_ops z)) =
            (\<Union>z\<in>set cs. set (rt_ops z)) \<union> set (rt_ops up)"
      by auto
    then show ?thesis unfolding d' set_rt_ops True r by (simp only: Un_assoc)
  next
    case False
    with sp have "\<exists>xs c c' ys. cs = xs @ c # ys \<and> cs' = xs @ c' # ys \<and> attached up c c'"
      by simp
    then obtain xs c c' ys where
      x: "cs = xs @ c # ys" "cs' = xs @ c' # ys" "attached up c c'" by (elim exE conjE)
    have "c \<in> set cs" using x(1) by simp
    then have ih: "set (rt_ops c') = set (rt_ops c) \<union> set (rt_ops up)"
      using x(3) by (rule ReduceTreePattern.IH)
    have "(\<Union>z\<in>set cs'. set (rt_ops z)) =
            (\<Union>z\<in>set xs. set (rt_ops z)) \<union> set (rt_ops c') \<union> (\<Union>z\<in>set ys. set (rt_ops z))"
      unfolding x(2) by auto
    moreover have "(\<Union>z\<in>set cs. set (rt_ops z)) =
            (\<Union>z\<in>set xs. set (rt_ops z)) \<union> set (rt_ops c) \<union> (\<Union>z\<in>set ys. set (rt_ops z))"
      unfolding x(1) by auto
    ultimately have "(\<Union>z\<in>set cs'. set (rt_ops z)) =
            (\<Union>z\<in>set cs. set (rt_ops z)) \<union> set (rt_ops up)"
      unfolding ih by (simp only: Un_assoc Un_commute Un_left_commute)
    then show ?thesis unfolding d' set_rt_ops r by (simp only: Un_assoc)
  qed
qed

lemma set_ops_ReduceTree_ReduceTree:
  assumes "MergePatternImpl_ReduceTree_ReduceTree G up down = Inr res"
  shows "set (rt_ops res) = set (rt_ops up) \<union> set (rt_ops down)"
proof -
  obtain cs r t where down: "down = ReduceTreePattern cs r t" by (cases down)
  let ?start = "ReduceTreePattern cs r (merge_tracker (rt_tracker up) t)"
  from assms have n: "fst (InsertUpstreamIntoTree G up ?start) = 1"
    and res: "res = snd (InsertUpstreamIntoTree G up ?start)"
    by (auto simp: MergePatternImpl_ReduceTree_ReduceTree_def Let_def down split: if_splits)
  have "attached up ?start res" unfolding res using n by (rule insert_num_one_attached)
  then have "set (rt_ops res) = set (rt_ops ?start) \<union> set (rt_ops up)" by (rule attached_ops)
  then show ?thesis by (auto simp: down set_rt_ops)
qed

lemma set_ops_Horizontal_Horizontal:
  assumes "MergePatternImpl_Horizontal_Horizontal G (ms1, t1) (ms2, t2) = Inr res"
  shows "set (GetOpsInPattern res) =
     set (GetOpsInPattern (HorizontalFusion ms1 t1)) \<union> set (GetOpsInPattern (HorizontalFusion ms2 t2))"
proof -
  from assms obtain f s where
    "res = HorizontalFusion [(HorizontalFusion ms1 t1, f), (HorizontalFusion ms2 t2, s)]
             (merge_tracker t1 t2)"
    by (auto simp: MergePatternImpl_Horizontal_Horizontal_def Let_def
          simp del: GetLoopFramework.simps split: sum.splits prod.splits)
  then show ?thesis by simp
qed

lemma set_ops_MergePattern:
  assumes "MergePattern G lhs rhs = Inr res" and "connected_merge G lhs rhs"
  shows "set (GetOpsInPattern res) = set (GetOpsInPattern lhs) \<union> set (GetOpsInPattern rhs)"
proof (cases lhs)
  case (Trivial a)
  show ?thesis
  proof (cases rhs)
    case (Reduce b)
    then show ?thesis using assms Trivial
      by (auto simp: MergePatternImpl_Trivial_Reduce_def)
  next
    case (Trivial b)
    then show ?thesis using assms \<open>lhs = Trivial a\<close>
      by (auto simp: MergePatternImpl_Trivial_Trivial_def)
  next
    case (ReduceTree b)
    then show ?thesis using assms Trivial
      by (auto simp: set_ops_Trivial_ReduceTree)
  next
    case (ReduceTreePlusTrivial b)
    then show ?thesis using assms Trivial
      by (auto simp: set_ops_Trivial_ReduceTreePlusTrivial)
  next
    case (ItersPermutation b)
    then show ?thesis using assms Trivial
      by (auto simp: MergePatternImpl_Trivial_ItersPermutation_def)
  qed (use assms Trivial in simp_all)
next
  case (ReduceTree a)
  show ?thesis
  proof (cases rhs)
    case (Trivial b)
    then show ?thesis using assms ReduceTree
      by (auto simp: MergePatternImpl_ReduceTree_Trivial_def rtt_ops_def)
  next
    case (ReduceTree b)
    then show ?thesis using assms \<open>lhs = ReduceTree a\<close>
      by (auto simp: set_ops_ReduceTree_ReduceTree split: sum.splits)
  qed (use assms ReduceTree in simp_all)
next
  case (HorizontalFusion ms1 t1)
  show ?thesis
  proof (cases rhs)
    case (HorizontalFusion ms2 t2)
    then show ?thesis using assms \<open>lhs = HorizontalFusion ms1 t1\<close>
      by (simp only: MergePattern.simps set_ops_Horizontal_Horizontal)
  qed (use assms HorizontalFusion in simp_all)
qed (use assms in simp_all)

text \<open>
  Claim C4 (amended). When both merge orders succeed and every merge of a trivial
  pattern into a reduce tree, or into a tree plus trivial, is connected, merging
  \<open>A\<close> with \<open>B\<close> and the result with \<open>C\<close> gives the same op set as merging \<open>B\<close>
  with \<open>C\<close> and then \<open>A\<close> into the result.
\<close>

theorem MergePattern_ops_associative:
  "MergePattern G A B = Inr AB \<Longrightarrow> MergePattern G AB C = Inr AB_C \<Longrightarrow>
   MergePattern G B C = Inr BC \<Longrightarrow> MergePattern G A BC = Inr A_BC \<Longrightarrow>
   connected_merge G A B \<Longrightarrow> connected_merge G AB C \<Longrightarrow>
   connected_merge G B C \<Longrightarrow> connected_merge G A BC \<Longrightarrow>
   set (GetOpsInPattern AB_C) = set (GetOpsInPattern A_BC)"
proof -
  assume m: "MergePattern G A B = Inr AB" "MergePattern G AB C = Inr AB_C"
    "MergePattern G B C = Inr BC" "MergePattern G A BC = Inr A_BC"
    and c: "connected_merge G A B" "connected_merge G AB C"
    "connected_merge G B C" "connected_merge G A BC"
  have "set (GetOpsInPattern AB_C) =
          (set (GetOpsInPattern A) \<union> set (GetOpsInPattern B)) \<union> set (GetOpsInPattern C)"
    using set_ops_MergePattern[OF m(1) c(1)] set_ops_MergePattern[OF m(2) c(2)] by simp
  moreover have "set (GetOpsInPattern A_BC) =
          set (GetOpsInPattern A) \<union> (set (GetOpsInPattern B) \<union> set (GetOpsInPattern C))"
    using set_ops_MergePattern[OF m(3) c(3)] set_ops_MergePattern[OF m(4) c(4)] by simp
  ultimately show ?thesis by (simp add: Un_assoc)
qed

lemma chain_merges:
  "MergePattern (chain_graph e) pat_A pat_B = Inr pat_AB"
  "MergePattern (chain_graph e) pat_AB pat_C = Inr pat_AB_C"
  "MergePattern (chain_graph e) pat_B pat_C = Inr pat_BC"
  "MergePattern (chain_graph True) pat_A pat_BC = Inr pat_A_BC"
  "MergePattern (chain_graph False) pat_A pat_BC = Inr pat_A_BC_unconnected"
  by (simp_all add: pat_A_def pat_B_def pat_C_def pat_AB_def pat_BC_def pat_AB_C_def
        pat_A_BC_def pat_A_BC_unconnected_def chain_graph_def
        MergePatternImpl_Trivial_Trivial_def MergePatternImpl_Trivial_Reduce_def
        FusePatternIfConnected_def AnyFirstInSecond_def UniqueConcatVector_def rt_ops.simps)

theorem MergePattern_ops_associative_witness:
  "MergePattern (chain_graph True) pat_A pat_B = Inr pat_AB
   \<and> MergePattern (chain_graph True) pat_AB pat_C = Inr pat_AB_C
   \<and> MergePattern (chain_graph True) pat_B pat_C = Inr pat_BC
   \<and> MergePattern (chain_graph True) pat_A pat_BC = Inr pat_A_BC
   \<and> connected_merge (chain_graph True) pat_A pat_B
   \<and> connected_merge (chain_graph True) pat_AB pat_C
   \<and> connected_merge (chain_graph True) pat_B pat_C
   \<and> connected_merge (chain_graph True) pat_A pat_BC
   \<and> set (GetOpsInPattern pat_AB_C) = set (GetOpsInPattern pat_A_BC)"
proof -
  have c: "connected_merge (chain_graph True) pat_A pat_B"
    "connected_merge (chain_graph True) pat_AB pat_C"
    "connected_merge (chain_graph True) pat_B pat_C"
    "connected_merge (chain_graph True) pat_A pat_BC"
    by (simp_all add: pat_A_def pat_B_def pat_C_def pat_AB_def pat_BC_def chain_graph_def
          AnyFirstInSecond_def rt_ops.simps)
  show ?thesis
    using MergePattern_ops_associative
            [OF chain_merges(1) chain_merges(2) chain_merges(3) chain_merges(4) c]
          chain_merges c
    by simp
qed

text \<open>
  Claim C4 as stated fails: without the edge from op 1 to op 2 all four merges still
  succeed, but \<^verbatim>\<open>FusePatternIfConnected\<close> passes the tree through unchanged when
  \<open>A\<close> is merged last, so the ops of \<open>A\<close> are missing from that result.
\<close>

theorem MergePattern_ops_associative_counterexample:
  "MergePattern (chain_graph False) pat_A pat_B = Inr pat_AB
   \<and> MergePattern (chain_graph False) pat_AB pat_C = Inr pat_AB_C
   \<and> MergePattern (chain_graph False) pat_B pat_C = Inr pat_BC
   \<and> MergePattern (chain_graph False) pat_A pat_BC = Inr pat_A_BC_unconnected
   \<and> set (GetOpsInPattern pat_AB_C) = {1, 2, 3}
   \<and> set (GetOpsInPattern pat_A_BC_unconnected) = {2, 3}
   \<and> set (GetOpsInPattern pat_AB_C) \<noteq> set (GetOpsInPattern pat_A_BC_unconnected)"
proof -
  have a: "set (GetOpsInPattern pat_AB_C) = {1, 2, 3}"
    by (auto simp: pat_AB_C_def rt_ops.simps)
  have b: "set (GetOpsInPattern pat_A_BC_unconnected) = {2, 3}"
    by (auto simp: pat_A_BC_unconnected_def rt_ops.simps)
  have "(1::nat) \<in> {1, 2, 3}" "(1::nat) \<notin> {2, 3}" by simp_all
  then have "{1, 2, 3} \<noteq> {2, 3::nat}" by blast
  then show ?thesis using a b chain_merges by simp
qed

section \<open>Loop frameworks and their comparison\<close>

lemma get_reduce_loop_loop_in_range:
  "\<forall>i\<in>set idxs. i < length (loop lf) \<Longrightarrow>
   get_reduce_loop_loop lf idxs acc =
     Inr (acc @ map (\<lambda>i. loop lf ! i) (filter (\<lambda>i. is_reduce lf ! i) idxs))"
  by (induction idxs arbitrary: acc) simp_all

lemma SqueezeLoopFramework_loop_in_range:
  "\<forall>i\<in>set idxs. i < length (is_reduce input) \<Longrightarrow>
   SqueezeLoopFramework_loop input idxs res =
     Inr \<lparr>loop = loop res @ map (\<lambda>i. loop input ! i)
                (filter (\<lambda>i. loop input ! i \<noteq> DimInt 1) idxs),
          is_reduce = is_reduce res @ map (\<lambda>i. is_reduce input ! i)
                (filter (\<lambda>i. loop input ! i \<noteq> DimInt 1) idxs)\<rparr>"
  by (induction idxs arbitrary: res) simp_all

lemma SplitReduceLoop_loop_in_range:
  "\<forall>i\<in>set idxs. i < length (loop loops) \<Longrightarrow>
   SplitReduceLoop_loop loops idxs (nr, rd) =
     Inr (nr @ map (\<lambda>i. loop loops ! i) (filter (\<lambda>i. \<not> is_reduce loops ! i) idxs),
          rd @ map (\<lambda>i. loop loops ! i) (filter (\<lambda>i. is_reduce loops ! i) idxs))"
  by (induction idxs arbitrary: nr rd) simp_all

lemma zip_as_indices:
  "length xs = length ys \<Longrightarrow> zip xs ys = map (\<lambda>i. (xs ! i, ys ! i)) [0..<length xs]"
  by (rule nth_equalityI) simp_all

lemma flagged_by_index:
  assumes "length xs = length ys"
  shows "map (\<lambda>i. xs ! i) (filter (\<lambda>i. ys ! i) [0..<length ys]) =
         map fst (filter snd (zip xs ys))"
proof -
  have "map fst (filter snd (zip xs ys)) =
        map fst (filter snd (map (\<lambda>i. (xs ! i, ys ! i)) [0..<length xs]))"
    using assms by (simp only: zip_as_indices)
  also have "\<dots> = map (\<lambda>i. xs ! i) (filter (\<lambda>i. ys ! i) [0..<length xs])"
    by (simp add: filter_map comp_def)
  finally show ?thesis using assms by simp
qed

lemma filter_by_index:
  "map (\<lambda>k. inp ! k) (filter (\<lambda>k. keep (inp ! k)) [0..<length inp]) = filter keep inp"
proof -
  have "filter keep inp = filter keep (map (\<lambda>k. inp ! k) [0..<length inp])"
    by (simp add: map_nth)
  also have "\<dots> = map (\<lambda>k. inp ! k) (filter (\<lambda>k. keep (inp ! k)) [0..<length inp])"
    by (simp add: filter_map comp_def)
  finally show ?thesis by simp
qed

lemma get_reduce_loop_same_length:
  "length (loop lf) = length (is_reduce lf) \<Longrightarrow>
   get_reduce_loop lf = Inr (map fst (filter snd (zip (loop lf) (is_reduce lf))))"
  by (simp add: get_reduce_loop_def get_reduce_loop_loop_in_range flagged_by_index)

lemma SqueezeLoopFramework_same_length:
  assumes "length (loop input) = length (is_reduce input)"
  shows "\<exists>sq. SqueezeLoopFramework input = Inr sq \<and>
        loop sq = filter (\<lambda>d. d \<noteq> DimInt 1) (loop input)"
proof -
  have "\<forall>i\<in>set [0..<length (loop input)]. i < length (is_reduce input)"
    using assms by simp
  then have "SqueezeLoopFramework_loop input [0..<length (loop input)]
               \<lparr>loop = [], is_reduce = []\<rparr> =
     Inr \<lparr>loop = loop \<lparr>loop = [], is_reduce = []\<rparr> @ map (\<lambda>i. loop input ! i)
                (filter (\<lambda>i. loop input ! i \<noteq> DimInt 1) [0..<length (loop input)]),
          is_reduce = is_reduce \<lparr>loop = [], is_reduce = []\<rparr> @ map (\<lambda>i. is_reduce input ! i)
                (filter (\<lambda>i. loop input ! i \<noteq> DimInt 1) [0..<length (loop input)])\<rparr>"
    by (rule SqueezeLoopFramework_loop_in_range)
  then show ?thesis
    unfolding SqueezeLoopFramework_def
    by (simp add: filter_by_index[where keep = "\<lambda>d. d \<noteq> DimInt 1"])
qed

lemma fill_padded_lengths:
  "fill_padded pv bl bi idxs (lp, isr, k) = Inr (lp', isr', k') \<Longrightarrow>
   length lp' = length lp \<and> length isr' = length isr"
  by (induction idxs arbitrary: lp isr k) (auto split: if_splits)

lemma pad_framework_lengths:
  "pad_framework base pv = Inr f \<Longrightarrow> length (loop f) = length (is_reduce f)"
  by (auto simp: pad_framework_def Let_def split: sum.splits dest: fill_padded_lengths)

lemma LoopFramework_Reduce_lengths:
  "LoopFramework_Reduce G p = Inr f \<Longrightarrow> length (loop f) = length (is_reduce f)"
  by (auto simp: LoopFramework_Reduce_def Let_def ConcatVector_def CreateIsReduceVector_def
        split: sum.splits)

lemma LoopFramework_ReduceTreePlusTrivial_lengths:
  "LoopFramework_ReduceTreePlusTrivial G p = Inr f \<Longrightarrow> length (loop f) = length (is_reduce f)"
  by (auto simp: LoopFramework_ReduceTreePlusTrivial_def Let_def ConcatVector_def
        CreateIsReduceVector_def split: sum.splits if_splits)

lemma GetLoopFramework_lengths:
  assumes "GetLoopFramework G p = Inr f"
    and "\<And>ip. p = ItersPermutation ip \<Longrightarrow>
           length (fst (loop_dims ip)) = length (snd (loop_dims ip))"
  shows "length (loop f) = length (is_reduce f)"
proof (cases p)
  case (Reduce x)
  then show ?thesis using assms(1) by (simp add: LoopFramework_Reduce_lengths)
next
  case (Trivial x)
  then show ?thesis using assms(1) by (auto simp: LoopFramework_Trivial_def Let_def)
next
  case (Unsupport x)
  then show ?thesis using assms(1) by simp
next
  case (ReduceTree x)
  then show ?thesis using assms(1) by (simp add: LoopFramework_Reduce_lengths)
next
  case (ReduceTreePlusTrivial x)
  then show ?thesis using assms(1) by (simp add: LoopFramework_ReduceTreePlusTrivial_lengths)
next
  case (HorizontalFusion ms t)
  then show ?thesis using assms(1)
    by (auto split: if_splits sum.splits dest: pad_framework_lengths)
next
  case (ItersPermutation ip)
  then show ?thesis using assms by auto
qed

text \<open>
  Claim C6. For patterns whose loop frameworks are defined (\<^verbatim>\<open>GetLoopFramework\<close>
  returns, with as many flags as sizes), \<^verbatim>\<open>IsLoopFrameworkEqual\<close> returns true
  exactly when the size sequences without their unit dimensions are equal and one side
  has no reduction dimension or both have the same sequence of reduction dimensions.
\<close>

theorem IsLoopFrameworkEqual_iff:
  assumes "GetLoopFramework G lhs = Inr lf" and "GetLoopFramework G rhs = Inr rf"
    and "length (loop lf) = length (is_reduce lf)"
    and "length (loop rf) = length (is_reduce rf)"
  shows "IsLoopFrameworkEqual G lhs rhs =
     Inr (filter (\<lambda>d. d \<noteq> DimInt 1) (loop lf) = filter (\<lambda>d. d \<noteq> DimInt 1) (loop rf)
          \<and> (map fst (filter snd (zip (loop lf) (is_reduce lf))) = []
             \<or> map fst (filter snd (zip (loop rf) (is_reduce rf))) = []
             \<or> map fst (filter snd (zip (loop lf) (is_reduce lf))) =
                map fst (filter snd (zip (loop rf) (is_reduce rf)))))"
proof -
  obtain sl where sl: "SqueezeLoopFramework lf = Inr sl"
      "loop sl = filter (\<lambda>d. d \<noteq> DimInt 1) (loop lf)"
    using SqueezeLoopFramework_same_length[OF assms(3)] by blast
  obtain sr where sr: "SqueezeLoopFramework rf = Inr sr"
      "loop sr = filter (\<lambda>d. d \<noteq> DimInt 1) (loop rf)"
    using SqueezeLoopFramework_same_length[OF assms(4)] by blast
  show ?thesis
    unfolding IsLoopFrameworkEqual_def and_then_def Let_def
    by (simp add: assms(1,2) get_reduce_loop_same_length[OF assms(3)]
          get_reduce_loop_same_length[OF assms(4)] sl sr)
qed

lemma loop_graph_frameworks:
  "GetLoopFramework loop_graph (Trivial (TrivialPattern [4] 4 new_tracker)) =
     Inr \<lparr>loop = [DimInt 2, DimInt 1, DimInt 5], is_reduce = [False, False, False]\<rparr>"
  "GetLoopFramework loop_graph (Trivial (TrivialPattern [1] 1 new_tracker)) =
     Inr \<lparr>loop = [DimInt 2, DimInt 3], is_reduce = [False, False]\<rparr>"
  "GetLoopFramework loop_graph (Reduce (ReducePattern [3] new_tracker)) =
     Inr \<lparr>loop = [DimInt 2, DimInt 5], is_reduce = [False, True]\<rparr>"
  by (simp_all add: loop_graph_def LoopFramework_Trivial_def LoopFramework_Reduce_def
        GetReduceOp_def ConcatVector_def CreateIsReduceVector_def Let_def
        numeral_2_eq_2 numeral_3_eq_3)

theorem IsLoopFrameworkEqual_iff_witness:
  "IsLoopFrameworkEqual loop_graph (Trivial (TrivialPattern [4] 4 new_tracker))
     (Reduce (ReducePattern [3] new_tracker)) = Inr True
   \<and> IsLoopFrameworkEqual loop_graph (Trivial (TrivialPattern [1] 1 new_tracker))
     (Reduce (ReducePattern [3] new_tracker)) = Inr False"
  using IsLoopFrameworkEqual_iff [OF loop_graph_frameworks(1) loop_graph_frameworks(3)]
        IsLoopFrameworkEqual_iff [OF loop_graph_frameworks(2) loop_graph_frameworks(3)]
  by simp

section \<open>The loop framework of a tree plus trivial\<close>

lemma GatherVector_in_range:
  "\<forall>i\<in>set idxs. i < length inp \<Longrightarrow>
   GatherVector inp (map int idxs) = Inr (map (\<lambda>i. inp ! i) idxs)"
  by (induction idxs) simp_all

lemma GatherVector_ExcludeIndex:
  "GatherVector inp (map int (ExcludeIndex (length inp) excludes)) =
     Inr (map (\<lambda>i. inp ! i) (filter (\<lambda>i. i \<notin> set excludes) [0..<length inp]))"
  unfolding ExcludeIndex_def by (rule GatherVector_in_range) simp

lemma filter_flags_False: "filter snd (zip xs (replicate n False)) = []"
  by (induction xs arbitrary: n) (simp, case_tac n, simp_all)

lemma filter_flags_True: "filter snd (zip xs (replicate n True)) = zip xs (replicate n True)"
  by (induction xs arbitrary: n) (simp, case_tac n, simp_all)

lemma SplitReduceLoop_same_length:
  assumes "length (loop loops) = length (is_reduce loops)"
  shows "\<exists>nr. SplitReduceLoop loops =
           Inr (nr, map fst (filter snd (zip (loop loops) (is_reduce loops))))"
proof -
  have "\<forall>i\<in>set [0..<length (is_reduce loops)]. i < length (loop loops)"
    using assms by simp
  then have "SplitReduceLoop_loop loops [0..<length (is_reduce loops)] ([], []) =
     Inr ([] @ map (\<lambda>i. loop loops ! i)
                 (filter (\<lambda>i. \<not> is_reduce loops ! i) [0..<length (is_reduce loops)]),
          [] @ map (\<lambda>i. loop loops ! i)
                 (filter (\<lambda>i. is_reduce loops ! i) [0..<length (is_reduce loops)]))"
    by (rule SplitReduceLoop_loop_in_range)
  then show ?thesis
    unfolding SplitReduceLoop_def by (simp add: flagged_by_index[OF assms])
qed

lemma SplitReduceLoop_of_Reduce:
  assumes "LoopFramework_Reduce G r = Inr root_loops"
    and "GatherVector (GetDimExprsFromValue G (operand0_source G (GetReduceOp G r)))
           (GetReduceAxisIdx G (GetReduceOp G r)) = Inr reduce_loops"
  shows "\<exists>nr. SplitReduceLoop root_loops = Inr (nr, reduce_loops)"
proof -
  let ?flat = "GetDimExprsFromValue G (result0 G (GetReduceOp G r))"
  have rl: "root_loops = \<lparr>loop = ?flat @ reduce_loops,
      is_reduce = replicate (length ?flat) False @ replicate (length reduce_loops) True\<rparr>"
    using assms by (simp add: LoopFramework_Reduce_def Let_def ConcatVector_def
        CreateIsReduceVector_def)
  have "length (loop root_loops) = length (is_reduce root_loops)" by (simp add: rl)
  then obtain nr where "SplitReduceLoop root_loops =
      Inr (nr, map fst (filter snd (zip (loop root_loops) (is_reduce root_loops))))"
    using SplitReduceLoop_same_length by blast
  then have "SplitReduceLoop root_loops = Inr (nr, reduce_loops)"
    by (simp add: rl filter_flags_False filter_flags_True)
  then show ?thesis ..
qed

text \<open>
  Claim C7 (amended). For a tree plus trivial, \<^verbatim>\<open>GetLoopFramework\<close> returns the
  sizes of the sink trivial without the positions listed in \<^verbatim>\<open>fake_reduce_iter_idx\<close>
  (all of them when the list is empty), followed by the reduction sizes of the tree's
  root, which are flagged as reduction; it fails where gathering the reduction sizes
  of the root fails.
\<close>

theorem GetLoopFramework_ReduceTreePlusTrivial:
  "(GatherVector (GetDimExprsFromValue G
        (operand0_source G (GetReduceOp G (GetRootPattern (tree p)))))
      (GetReduceAxisIdx G (GetReduceOp G (GetRootPattern (tree p)))) = Inr reduce_loops \<longrightarrow>
    GetLoopFramework G (ReduceTreePlusTrivial p) =
      Inr \<lparr>loop =
             map (\<lambda>i. GetDimExprsFromValue G (result0 G (sink_op (sink_trivial p))) ! i)
               (filter (\<lambda>i. i \<notin> set (fake_reduce_iter_idx p))
                  [0..<length (GetDimExprsFromValue G (result0 G (sink_op (sink_trivial p))))])
             @ reduce_loops,
           is_reduce =
             replicate (length (filter (\<lambda>i. i \<notin> set (fake_reduce_iter_idx p))
                  [0..<length (GetDimExprsFromValue G (result0 G (sink_op (sink_trivial p))))]))
               False
             @ replicate (length reduce_loops) True\<rparr>)
   \<and> (GatherVector (GetDimExprsFromValue G
        (operand0_source G (GetReduceOp G (GetRootPattern (tree p)))))
      (GetReduceAxisIdx G (GetReduceOp G (GetRootPattern (tree p)))) = Inl e \<longrightarrow>
    GetLoopFramework G (ReduceTreePlusTrivial p) = Inl e)
   \<and> (fake_reduce_iter_idx p = [] \<longrightarrow>
    map (\<lambda>i. GetDimExprsFromValue G (result0 G (sink_op (sink_trivial p))) ! i)
      (filter (\<lambda>i. i \<notin> set (fake_reduce_iter_idx p))
         [0..<length (GetDimExprsFromValue G (result0 G (sink_op (sink_trivial p))))]) =
    GetDimExprsFromValue G (result0 G (sink_op (sink_trivial p))))"
proof (intro conjI impI)
  let ?tl = "GetDimExprsFromValue G (result0 G (sink_op (sink_trivial p)))"
  let ?kept = "map (\<lambda>i. ?tl ! i)
      (filter (\<lambda>i. i \<notin> set (fake_reduce_iter_idx p)) [0..<length ?tl])"
  let ?r = "GetRootPattern (tree p)"
  let ?gather = "GatherVector (GetDimExprsFromValue G (operand0_source G (GetReduceOp G ?r)))
      (GetReduceAxisIdx G (GetReduceOp G ?r))"
  have tl: "loop (LoopFramework_Trivial G (sink_trivial p)) = ?tl"
    by (simp add: LoopFramework_Trivial_def Let_def)
  have empty: "fake_reduce_iter_idx p = [] \<Longrightarrow> ?kept = ?tl"
    by (simp add: map_nth)
  show "fake_reduce_iter_idx p = [] \<Longrightarrow> ?kept = ?tl" by (rule empty)
  have kept: "(if fake_reduce_iter_idx p \<noteq> []
        then GatherVector ?tl (map int (ExcludeIndex (length ?tl) (fake_reduce_iter_idx p)))
        else Inr ?tl) = Inr ?kept"
    using empty by (simp add: GatherVector_ExcludeIndex)
  {
    assume g: "?gather = Inr reduce_loops"
    then obtain root_loops where root: "LoopFramework_Reduce G ?r = Inr root_loops"
      by (simp add: LoopFramework_Reduce_def Let_def)
    from SplitReduceLoop_of_Reduce[OF root g] obtain nr where
      sp: "SplitReduceLoop root_loops = Inr (nr, reduce_loops)" by blast
    show "GetLoopFramework G (ReduceTreePlusTrivial p) =
      Inr \<lparr>loop = ?kept @ reduce_loops,
           is_reduce = replicate (length (filter (\<lambda>i. i \<notin> set (fake_reduce_iter_idx p))
               [0..<length ?tl])) False @ replicate (length reduce_loops) True\<rparr>"
      unfolding GetLoopFramework.simps LoopFramework_ReduceTreePlusTrivial_def Let_def tl kept
      by (simp add: root sp ConcatVector_def CreateIsReduceVector_def)
  }
  {
    assume g: "?gather = Inl e"
    then have root: "LoopFramework_Reduce G ?r = Inl e"
      by (simp add: LoopFramework_Reduce_def Let_def)
    show "GetLoopFramework G (ReduceTreePlusTrivial p) = Inl e"
      unfolding GetLoopFramework.simps LoopFramework_ReduceTreePlusTrivial_def Let_def tl kept
      by (simp add: root)
  }
qed

theorem GetLoopFramework_ReduceTreePlusTrivial_witness:
  "GetLoopFramework loop_graph (ReduceTreePlusTrivial (tree_plus_trivial [])) =
     Inr \<lparr>loop = [DimInt 2, DimInt 3, DimInt 5], is_reduce = [False, False, True]\<rparr>
   \<and> GetLoopFramework loop_graph (ReduceTreePlusTrivial (tree_plus_trivial [0])) =
     Inr \<lparr>loop = [DimInt 3, DimInt 5], is_reduce = [False, True]\<rparr>"
  using GetLoopFramework_ReduceTreePlusTrivial
          [of loop_graph "tree_plus_trivial []" "[DimInt 5]"]
        GetLoopFramework_ReduceTreePlusTrivial
          [of loop_graph "tree_plus_trivial [0]" "[DimInt 5]"]
  by (simp add: loop_graph_def tree_plus_trivial_def GetReduceOp_def numeral_2_eq_2)

text \<open>
  Claim C7 as stated fails where the list is not empty: the sizes at the listed indices
  are dropped and the reduction sizes of the root are appended; they are not the sizes
  of the trivial moved to the tail. With trivial sizes \<open>[2, 3]\<close>, index 1 listed and
  root reduction size 5, the framework is \<open>[2, 5]\<close>, not \<open>[2, 3]\<close>.
\<close>

theorem GetLoopFramework_fake_relocated_counterexample:
  "GetLoopFramework loop_graph (ReduceTreePlusTrivial (tree_plus_trivial [1])) =
     Inr \<lparr>loop = [DimInt 2, DimInt 5], is_reduce = [False, True]\<rparr>
   \<and> fake_relocated_loop loop_graph (tree_plus_trivial [1]) = Inr [DimInt 2, DimInt 3]"
  by (simp add: loop_graph_def tree_plus_trivial_def GetReduceOp_def numeral_2_eq_2
        LoopFramework_ReduceTreePlusTrivial_def LoopFramework_Trivial_def
        LoopFramework_Reduce_def fake_relocated_loop_def ExcludeIndex_def and_then_def
        SplitReduceLoop_def ConcatVector_def CreateIsReduceVector_def Let_def)

section \<open>The alignment computed by GetPaddingVector\<close>

declare RecursivePadding_calls.simps [simp del]

lemma RecursivePadding_unit_second_step:
  "pf < length first \<Longrightarrow> ps < length second \<Longrightarrow> second ! ps \<noteq> first ! pf \<Longrightarrow>
   second ! ps = DimInt 1 \<Longrightarrow>
   RecursivePadding first second pf ps n (F, S) =
   RecursivePadding first second pf (ps + 1) (n + 1) (F @ [n], S)"
  by (subst RecursivePadding.simps) simp

lemma RecursivePadding_unit_first_step:
  "pf < length first \<Longrightarrow> ps < length second \<Longrightarrow> second ! ps \<noteq> first ! pf \<Longrightarrow>
   second ! ps \<noteq> DimInt 1 \<Longrightarrow> first ! pf = DimInt 1 \<Longrightarrow>
   RecursivePadding first second pf ps n (F, S) =
   RecursivePadding first second (pf + 1) ps (n + 1) (F, S @ [n])"
  by (subst RecursivePadding.simps) simp

lemma RecursivePadding_done:
  "RecursivePadding first second (length first) (length second) n (F, S) = Inr (F, S)"
  by (subst RecursivePadding.simps) simp

lemma RecursivePadding_pad_first:
  "ps < length second \<Longrightarrow> pf \<le> length first \<Longrightarrow> second ! ps = DimInt 1 \<Longrightarrow>
   pf = length first \<or> second ! ps \<noteq> first ! pf \<Longrightarrow>
   RecursivePadding first second pf ps n (F, S) =
   RecursivePadding first second pf (ps + 1) (n + 1) (F @ [n], S)"
  by (subst RecursivePadding.simps) auto

lemma RecursivePadding_pad_second:
  "pf < length first \<Longrightarrow> ps \<le> length second \<Longrightarrow> first ! pf = DimInt 1 \<Longrightarrow>
   ps = length second \<or> (second ! ps \<noteq> first ! pf \<and> second ! ps \<noteq> DimInt 1) \<Longrightarrow>
   RecursivePadding first second pf ps n (F, S) =
   RecursivePadding first second (pf + 1) ps (n + 1) (F, S @ [n])"
  by (subst RecursivePadding.simps) auto

lemma RecursivePadding_calls_done:
  "RecursivePadding_calls first second (length first) (length second) n (F, S) =
     [(length first, length second, n, F, S)]"
  by (subst RecursivePadding_calls.simps) simp

lemma RecursivePadding_calls_both:
  "pf < length first \<Longrightarrow> ps < length second \<Longrightarrow> second ! ps = first ! pf \<Longrightarrow>
   RecursivePadding_calls first second pf ps n (F, S) =
   (pf, ps, n, F, S) # RecursivePadding_calls first second (pf + 1) (ps + 1) (n + 1) (F, S)"
  by (subst RecursivePadding_calls.simps) simp

lemma RecursivePadding_calls_pad_first:
  "ps < length second \<Longrightarrow> pf \<le> length first \<Longrightarrow> second ! ps = DimInt 1 \<Longrightarrow>
   pf = length first \<or> second ! ps \<noteq> first ! pf \<Longrightarrow>
   RecursivePadding_calls first second pf ps n (F, S) =
   (pf, ps, n, F, S) # RecursivePadding_calls first second pf (ps + 1) (n + 1) (F @ [n], S)"
  by (subst RecursivePadding_calls.simps) auto

lemma RecursivePadding_calls_pad_second:
  "pf < length first \<Longrightarrow> ps \<le> length second \<Longrightarrow> first ! pf = DimInt 1 \<Longrightarrow>
   ps = length second \<or> (second ! ps \<noteq> first ! pf \<and> second ! ps \<noteq> DimInt 1) \<Longrightarrow>
   RecursivePadding_calls first second pf ps n (F, S) =
   (pf, ps, n, F, S) # RecursivePadding_calls first second (pf + 1) ps (n + 1) (F, S @ [n])"
  by (subst RecursivePadding_calls.simps) auto

lemma padding_state_cases [consumes 2]:
  assumes "pf \<le> length first" and "ps \<le> length second"
  obtains (finished) "pf = length first" "ps = length second"
  | (both) "pf < length first" "ps < length second" "second ! ps = first ! pf"
  | (pad_first) "ps < length second" "second ! ps = DimInt 1"
      "pf = length first \<or> second ! ps \<noteq> first ! pf"
  | (pad_second) "pf < length first" "first ! pf = DimInt 1"
      "ps = length second \<or> (second ! ps \<noteq> first ! pf \<and> second ! ps \<noteq> DimInt 1)"
  | (failed) e where "RecursivePadding first second pf ps n (F, S) = Inl e"
      "RecursivePadding_calls first second pf ps n (F, S) = [(pf, ps, n, F, S)]"
proof (cases "pf = length first")
  case pf: True
  show ?thesis
  proof (cases "ps = length second")
    case True
    then show ?thesis using pf finished by simp
  next
    case False
    then have lt: "ps < length second" using assms(2) by simp
    show ?thesis
    proof (cases "second ! ps = DimInt 1")
      case True
      then show ?thesis using lt pf pad_first by simp
    next
      case False
      have "RecursivePadding first second pf ps n (F, S) =
              Inl (EnforceFailed ''second[ps] must be '1' to padding.'')"
        using pf lt False by (subst RecursivePadding.simps) simp
      moreover have "RecursivePadding_calls first second pf ps n (F, S) = [(pf, ps, n, F, S)]"
        using pf lt False by (subst RecursivePadding_calls.simps) simp
      ultimately show ?thesis by (rule failed)
    qed
  qed
next
  case False
  then have pf: "pf < length first" using assms(1) by simp
  show ?thesis
  proof (cases "ps = length second")
    case ps: True
    show ?thesis
    proof (cases "first ! pf = DimInt 1")
      case True
      then show ?thesis using pf ps pad_second by simp
    next
      case False
      have "RecursivePadding first second pf ps n (F, S) =
              Inl (EnforceFailed ''second[ps] must be '1' to padding.'')"
        using pf ps False by (subst RecursivePadding.simps) simp
      moreover have "RecursivePadding_calls first second pf ps n (F, S) = [(pf, ps, n, F, S)]"
        using pf ps False by (subst RecursivePadding_calls.simps) simp
      ultimately show ?thesis by (rule failed)
    qed
  next
    case False
    then have ps: "ps < length second" using assms(2) by simp
    show ?thesis
    proof (cases "second ! ps = first ! pf")
      case True
      then show ?thesis using pf ps both by simp
    next
      case ne: False
      show ?thesis
      proof (cases "second ! ps = DimInt 1")
        case True
        then show ?thesis using ps ne pad_first by simp
      next
        case s1: False
        show ?thesis
        proof (cases "first ! pf = DimInt 1")
          case True
          then show ?thesis using pf ne s1 pad_second by simp
        next
          case False
          have "RecursivePadding first second pf ps n (F, S) = Inl (Thrown ''Padding Error.'')"
            using pf ps ne s1 False by (subst RecursivePadding.simps) simp
          moreover have "RecursivePadding_calls first second pf ps n (F, S) =
              [(pf, ps, n, F, S)]"
            using pf ps ne s1 False by (subst RecursivePadding_calls.simps) simp
          ultimately show ?thesis by (rule failed)
        qed
      qed
    qed
  qed
qed

lemma RecursivePadding_calls_result:
  "pf \<le> length first \<Longrightarrow> ps \<le> length second \<Longrightarrow>
   (pf', ps', n', F', S') \<in> set (RecursivePadding_calls first second pf ps n (F, S)) \<Longrightarrow>
   pf' \<le> length first \<and> ps' \<le> length second \<and>
   RecursivePadding first second pf' ps' n' (F', S') =
   RecursivePadding first second pf ps n (F, S)"
proof (induction "(length first - pf) + (length second - ps)" arbitrary: pf ps n F S
    rule: less_induct)
  case less
  note bounds = less.prems(1,2)
  note mem = less.prems(3)
  from bounds show ?case
  proof (cases rule: padding_state_cases[where n = n and F = F and S = S])
    case finished
    then show ?thesis using mem bounds by (simp add: RecursivePadding_calls_done)
  next
    case both
    have "(pf', ps', n', F', S') = (pf, ps, n, F, S) \<or>
          (pf', ps', n', F', S') \<in> set (RecursivePadding_calls first second (pf + 1) (ps + 1)
             (n + 1) (F, S))"
      using mem by (simp add: RecursivePadding_calls_both[OF both])
    then show ?thesis
    proof
      assume "(pf', ps', n', F', S') = (pf, ps, n, F, S)"
      then show ?thesis using bounds by simp
    next
      assume m: "(pf', ps', n', F', S') \<in> set (RecursivePadding_calls first second (pf + 1)
          (ps + 1) (n + 1) (F, S))"
      have lt: "length first - (pf + 1) + (length second - (ps + 1))
              < length first - pf + (length second - ps)"
        using both by simp
      have b: "pf + 1 \<le> length first" "ps + 1 \<le> length second" using both by simp_all
      have "pf' \<le> length first \<and> ps' \<le> length second \<and>
            RecursivePadding first second pf' ps' n' (F', S') =
            RecursivePadding first second (pf + 1) (ps + 1) (n + 1) (F, S)"
        by (rule less.hyps[OF lt b m])
      then show ?thesis
        using RecursivePadding_equal_step[OF both, of n F S] by simp
    qed
  next
    case pad_first
    note step = pad_first(1) bounds(1) pad_first(2,3)
    have "(pf', ps', n', F', S') = (pf, ps, n, F, S) \<or>
          (pf', ps', n', F', S') \<in> set (RecursivePadding_calls first second pf (ps + 1)
             (n + 1) (F @ [n], S))"
      using mem by (simp add: RecursivePadding_calls_pad_first[OF step])
    then show ?thesis
    proof
      assume "(pf', ps', n', F', S') = (pf, ps, n, F, S)"
      then show ?thesis using bounds by simp
    next
      assume m: "(pf', ps', n', F', S') \<in> set (RecursivePadding_calls first second pf
          (ps + 1) (n + 1) (F @ [n], S))"
      have lt: "length first - pf + (length second - (ps + 1))
              < length first - pf + (length second - ps)"
        using pad_first by simp
      have b: "ps + 1 \<le> length second" using pad_first by simp
      have "pf' \<le> length first \<and> ps' \<le> length second \<and>
            RecursivePadding first second pf' ps' n' (F', S') =
            RecursivePadding first second pf (ps + 1) (n + 1) (F @ [n], S)"
        by (rule less.hyps[OF lt bounds(1) b m])
      then show ?thesis
        using RecursivePadding_pad_first[OF step, of n F S] by simp
    qed
  next
    case pad_second
    note step = pad_second(1) bounds(2) pad_second(2,3)
    have "(pf', ps', n', F', S') = (pf, ps, n, F, S) \<or>
          (pf', ps', n', F', S') \<in> set (RecursivePadding_calls first second (pf + 1) ps
             (n + 1) (F, S @ [n]))"
      using mem by (simp add: RecursivePadding_calls_pad_second[OF step])
    then show ?thesis
    proof
      assume "(pf', ps', n', F', S') = (pf, ps, n, F, S)"
      then show ?thesis using bounds by simp
    next
      assume m: "(pf', ps', n', F', S') \<in> set (RecursivePadding_calls first second (pf + 1)
          ps (n + 1) (F, S @ [n]))"
      have lt: "length first - (pf + 1) + (length second - ps)
              < length first - pf + (length second - ps)"
        using pad_second by simp
      have b: "pf + 1 \<le> length first" using pad_second by simp
      have "pf' \<le> length first \<and> ps' \<le> length second \<and>
            RecursivePadding first second pf' ps' n' (F', S') =
            RecursivePadding first second (pf + 1) ps (n + 1) (F, S @ [n])"
        by (rule less.hyps[OF lt b bounds(2) m])
      then show ?thesis
        using RecursivePadding_pad_second[OF step, of n F S] by simp
    qed
  next
    case (failed e)
    then show ?thesis using mem bounds by simp
  qed
qed

lemma insert_units_drop_head:
  "p < k \<Longrightarrow> insert_units k (p # padding) xs m = insert_units k padding xs m"
  by (induction m arbitrary: k xs) (auto split: list.splits)

lemma aligned_from_nil: "aligned_from n [] [] [] []"
  by (simp add: aligned_from_def)

lemma aligned_from_both:
  assumes "aligned_from (n + 1) xs ys Fn Sn"
  shows "aligned_from n (x # xs) (x # ys) Fn Sn"
proof -
  from assms have f: "n \<notin> set Fn" and s: "n \<notin> set Sn"
    by (auto simp: aligned_from_def list_all_iff)
  from assms have all: "list_all (\<lambda>p. n \<le> p) Fn" "list_all (\<lambda>p. n \<le> p) Sn"
    by (auto simp: aligned_from_def list_all_iff)
  from assms have len: "length xs + length Fn = length ys + length Sn"
    unfolding aligned_from_def by blast
  from assms have eq: "insert_units (n + 1) Fn xs (length xs + length Fn) =
             insert_units (n + 1) Sn ys (length ys + length Sn)"
    unfolding aligned_from_def by blast
  show ?thesis using f s all len eq by (simp add: aligned_from_def)
qed

lemma aligned_from_pad_first:
  assumes "aligned_from (n + 1) xs ys Fn Sn"
  shows "aligned_from n xs (DimInt 1 # ys) (n # Fn) Sn"
proof -
  from assms have s: "n \<notin> set Sn"
    by (auto simp: aligned_from_def list_all_iff)
  from assms have all: "list_all (\<lambda>p. n \<le> p) Fn" "list_all (\<lambda>p. n \<le> p) Sn"
    by (auto simp: aligned_from_def list_all_iff)
  from assms have len: "length xs + length Fn = length ys + length Sn"
    unfolding aligned_from_def by blast
  from assms have eq: "insert_units (n + 1) Fn xs (length xs + length Fn) =
             insert_units (n + 1) Sn ys (length ys + length Sn)"
    unfolding aligned_from_def by blast
  have "insert_units (n + 1) (n # Fn) xs (length xs + length Fn) =
        insert_units (n + 1) Fn xs (length xs + length Fn)"
    by (rule insert_units_drop_head) simp
  then show ?thesis using s all len eq by (simp add: aligned_from_def)
qed

lemma aligned_from_pad_second:
  assumes "aligned_from (n + 1) xs ys Fn Sn"
  shows "aligned_from n (DimInt 1 # xs) ys Fn (n # Sn)"
proof -
  from assms have f: "n \<notin> set Fn"
    by (auto simp: aligned_from_def list_all_iff)
  from assms have all: "list_all (\<lambda>p. n \<le> p) Fn" "list_all (\<lambda>p. n \<le> p) Sn"
    by (auto simp: aligned_from_def list_all_iff)
  from assms have len: "length xs + length Fn = length ys + length Sn"
    unfolding aligned_from_def by blast
  from assms have eq: "insert_units (n + 1) Fn xs (length xs + length Fn) =
             insert_units (n + 1) Sn ys (length ys + length Sn)"
    unfolding aligned_from_def by blast
  have "insert_units (n + 1) (n # Sn) ys (length ys + length Sn) =
        insert_units (n + 1) Sn ys (length ys + length Sn)"
    by (rule insert_units_drop_head) simp
  then show ?thesis using f all len eq by (simp add: aligned_from_def)
qed

lemma RecursivePadding_aligned:
  "pf \<le> length first \<Longrightarrow> ps \<le> length second \<Longrightarrow>
   RecursivePadding first second pf ps n (F, S) = Inr (F', S') \<Longrightarrow>
   \<exists>Fn Sn. F' = F @ Fn \<and> S' = S @ Sn \<and>
     aligned_from n (drop pf first) (drop ps second) Fn Sn"
proof (induction "(length first - pf) + (length second - ps)" arbitrary: pf ps n F S
    rule: less_induct)
  case less
  note bounds = less.prems(1,2)
  note res = less.prems(3)
  from bounds show ?case
  proof (cases rule: padding_state_cases[where n = n and F = F and S = S])
    case finished
    then have "F' = F @ [] \<and> S' = S @ [] \<and>
        aligned_from n (drop pf first) (drop ps second) [] []"
      using res by (simp add: RecursivePadding_done aligned_from_nil)
    then show ?thesis by blast
  next
    case both
    have lt: "length first - (pf + 1) + (length second - (ps + 1))
              < length first - pf + (length second - ps)"
      using both by simp
    have b: "pf + 1 \<le> length first" "ps + 1 \<le> length second" using both by simp_all
    have r: "RecursivePadding first second (pf + 1) (ps + 1) (n + 1) (F, S) = Inr (F', S')"
      using res RecursivePadding_equal_step[OF both, of n F S] by simp
    from less.hyps[OF lt b r] obtain Fn Sn where
      ih: "F' = F @ Fn" "S' = S @ Sn"
        "aligned_from (n + 1) (drop (pf + 1) first) (drop (ps + 1) second) Fn Sn"
      by blast
    have dx: "drop pf first = first ! pf # drop (pf + 1) first"
      using both(1) by (simp add: Cons_nth_drop_Suc)
    have "drop ps second = second ! ps # drop (ps + 1) second"
      using both(2) by (simp add: Cons_nth_drop_Suc)
    then have dy: "drop ps second = first ! pf # drop (ps + 1) second"
      using both(3) by simp
    have "aligned_from n (drop pf first) (drop ps second) Fn Sn"
      unfolding dx dy using ih(3) by (rule aligned_from_both)
    then show ?thesis using ih(1,2) by blast
  next
    case pad_first
    note step = pad_first(1) bounds(1) pad_first(2,3)
    have lt: "length first - pf + (length second - (ps + 1))
              < length first - pf + (length second - ps)"
      using pad_first by simp
    have b: "ps + 1 \<le> length second" using pad_first by simp
    have r: "RecursivePadding first second pf (ps + 1) (n + 1) (F @ [n], S) = Inr (F', S')"
      using res RecursivePadding_pad_first[OF step, of n F S] by simp
    from less.hyps[OF lt bounds(1) b r] obtain Fn Sn where
      ih: "F' = (F @ [n]) @ Fn" "S' = S @ Sn"
        "aligned_from (n + 1) (drop pf first) (drop (ps + 1) second) Fn Sn"
      by blast
    have "drop ps second = second ! ps # drop (ps + 1) second"
      using pad_first(1) by (simp add: Cons_nth_drop_Suc)
    then have dy: "drop ps second = DimInt 1 # drop (ps + 1) second"
      using pad_first(2) by simp
    have "aligned_from n (drop pf first) (drop ps second) (n # Fn) Sn"
      unfolding dy using ih(3) by (rule aligned_from_pad_first)
    moreover have "F' = F @ (n # Fn)" using ih(1) by simp
    ultimately show ?thesis using ih(2) by blast
  next
    case pad_second
    note step = pad_second(1) bounds(2) pad_second(2,3)
    have lt: "length first - (pf + 1) + (length second - ps)
              < length first - pf + (length second - ps)"
      using pad_second by simp
    have b: "pf + 1 \<le> length first" using pad_second by simp
    have r: "RecursivePadding first second (pf + 1) ps (n + 1) (F, S @ [n]) = Inr (F', S')"
      using res RecursivePadding_pad_second[OF step, of n F S] by simp
    from less.hyps[OF lt b bounds(2) r] obtain Fn Sn where
      ih: "F' = F @ Fn" "S' = (S @ [n]) @ Sn"
        "aligned_from (n + 1) (drop (pf + 1) first) (drop ps second) Fn Sn"
      by blast
    have "drop pf first = first ! pf # drop (pf + 1) first"
      using pad_second(1) by (simp add: Cons_nth_drop_Suc)
    then have dx: "drop pf first = DimInt 1 # drop (pf + 1) first"
      using pad_second(2) by simp
    have "aligned_from n (drop pf first) (drop ps second) Fn (n # Sn)"
      unfolding dx using ih(3) by (rule aligned_from_pad_second)
    moreover have "S' = S @ (n # Sn)" using ih(2) by simp
    ultimately show ?thesis using ih(1) by blast
  next
    case (failed e)
    then show ?thesis using res by simp
  qed
qed

lemma GetPaddingVector_aligned:
  "GetPaddingVector first second = Inr (F', S') \<Longrightarrow> aligned_from 0 first second F' S'"
  using RecursivePadding_aligned[of 0 first 0 second 0 "[]" "[]" F' S']
  by (auto simp: GetPaddingVector_def)

lemma GetPaddingVector_calls:
  "(pf, ps, n, F, S) \<in> set (RecursivePadding_calls first second 0 0 0 ([], [])) \<Longrightarrow>
   pf \<le> length first \<and> ps \<le> length second \<and>
   GetPaddingVector first second = RecursivePadding first second pf ps n (F, S)"
  using RecursivePadding_calls_result[of 0 first 0 second pf ps n F S 0 "[]" "[]"]
  by (simp add: GetPaddingVector_def)

text \<open>
  Claim C5. \<^verbatim>\<open>GetPaddingVector\<close> is a two-pointer alignment.
  \<open>GetPaddingVector [2,3] [2,1,3]\<close> gives \<open>padding_f = [1]\<close>, \<open>padding_s = []\<close>, and
  \<open>GetPaddingVector [1,5] [5]\<close> gives \<open>padding_f = []\<close>, \<open>padding_s = [0]\<close>.
  Every step of the lambda is determined: equal current entries advance both pointers
  and record nothing; unequal entries with the second one equal to 1 record the position
  for the first sequence and advance the second pointer only; otherwise a first entry
  equal to 1 records the position for the second sequence and advances the first
  pointer only; with one sequence exhausted the result is a success exactly when every
  remaining entry of the other is 1, the positions being recorded for the exhausted
  side; unequal entries with neither equal to 1 fail. The result of the call is the
  result of every call of the lambda that it makes, so the call fails as soon as a step
  of the last kind is reached. When the call succeeds, the two sequences with unit
  dimensions inserted at their padding positions are the same sequence.
\<close>

theorem GetPaddingVector_two_pointer:
  "GetPaddingVector [DimInt 2, DimInt 3] [DimInt 2, DimInt 1, DimInt 3] = Inr ([1], [])
   \<and> GetPaddingVector [DimInt 1, DimInt 5] [DimInt 5] = Inr ([], [0])
   \<and> (pf < length first \<and> ps < length second \<and> second ! ps = first ! pf \<longrightarrow>
        RecursivePadding first second pf ps n (F, S) =
        RecursivePadding first second (pf + 1) (ps + 1) (n + 1) (F, S))
   \<and> (pf < length first \<and> ps < length second \<and> second ! ps \<noteq> first ! pf \<and>
        second ! ps = DimInt 1 \<longrightarrow>
        RecursivePadding first second pf ps n (F, S) =
        RecursivePadding first second pf (ps + 1) (n + 1) (F @ [n], S))
   \<and> (pf < length first \<and> ps < length second \<and> second ! ps \<noteq> first ! pf \<and>
        second ! ps \<noteq> DimInt 1 \<and> first ! pf = DimInt 1 \<longrightarrow>
        RecursivePadding first second pf ps n (F, S) =
        RecursivePadding first second (pf + 1) ps (n + 1) (F, S @ [n]))
   \<and> (ps \<le> length second \<longrightarrow>
        RecursivePadding first second (length first) ps n (F, S) =
          (if \<forall>i. ps \<le> i \<and> i < length second \<longrightarrow> second ! i = DimInt 1
           then Inr (F @ map (\<lambda>j. n + int j) [0..<length second - ps], S)
           else Inl (EnforceFailed ''second[ps] must be '1' to padding.'')))
   \<and> (pf \<le> length first \<longrightarrow>
        RecursivePadding first second pf (length second) n (F, S) =
          (if \<forall>i. pf \<le> i \<and> i < length first \<longrightarrow> first ! i = DimInt 1
           then Inr (F, S @ map (\<lambda>j. n + int j) [0..<length first - pf])
           else Inl (EnforceFailed ''second[ps] must be '1' to padding.'')))
   \<and> (pf < length first \<and> ps < length second \<and> second ! ps \<noteq> first ! pf \<and>
        second ! ps \<noteq> DimInt 1 \<and> first ! pf \<noteq> DimInt 1 \<longrightarrow>
        RecursivePadding first second pf ps n (F, S) = Inl (Thrown ''Padding Error.''))
   \<and> ((pf, ps, n, F, S) \<in> set (RecursivePadding_calls first second 0 0 0 ([], [])) \<longrightarrow>
        GetPaddingVector first second = RecursivePadding first second pf ps n (F, S))
   \<and> ((pf, ps, n, F, S) \<in> set (RecursivePadding_calls first second 0 0 0 ([], [])) \<and>
        pf < length first \<and> ps < length second \<and> second ! ps \<noteq> first ! pf \<and>
        second ! ps \<noteq> DimInt 1 \<and> first ! pf \<noteq> DimInt 1 \<longrightarrow>
        GetPaddingVector first second = Inl (Thrown ''Padding Error.''))
   \<and> ((pf, ps, n, F, S) \<in> set (RecursivePadding_calls first second 0 0 0 ([], [])) \<and>
        pf = length first \<longrightarrow>
        GetPaddingVector first second =
          (if \<forall>i. ps \<le> i \<and> i < length second \<longrightarrow> second ! i = DimInt 1
           then Inr (F @ map (\<lambda>j. n + int j) [0..<length second - ps], S)
           else Inl (EnforceFailed ''second[ps] must be '1' to padding.'')))
   \<and> ((pf, ps, n, F, S) \<in> set (RecursivePadding_calls first second 0 0 0 ([], [])) \<and>
        ps = length second \<longrightarrow>
        GetPaddingVector first second =
          (if \<forall>i. pf \<le> i \<and> i < length first \<longrightarrow> first ! i = DimInt 1
           then Inr (F, S @ map (\<lambda>j. n + int j) [0..<length first - pf])
           else Inl (EnforceFailed ''second[ps] must be '1' to padding.'')))
   \<and> (GetPaddingVector first second = Inr (F', S') \<longrightarrow>
        length first + length F' = length second + length S' \<and>
        insert_units 0 F' first (length first + length F') =
        insert_units 0 S' second (length second + length S'))"
proof (intro conjI impI)
  show "GetPaddingVector [DimInt 2, DimInt 3] [DimInt 2, DimInt 1, DimInt 3] = Inr ([1], [])"
    by (simp add: GetPaddingVector_def RecursivePadding.simps)
  show "GetPaddingVector [DimInt 1, DimInt 5] [DimInt 5] = Inr ([], [0])"
    by (simp add: GetPaddingVector_def RecursivePadding.simps)
  show "GetPaddingVector first second = RecursivePadding first second pf ps n (F, S)"
    if "(pf, ps, n, F, S) \<in> set (RecursivePadding_calls first second 0 0 0 ([], []))"
    using GetPaddingVector_calls[OF that] by simp
  show "GetPaddingVector first second = Inl (Thrown ''Padding Error.'')"
    if "(pf, ps, n, F, S) \<in> set (RecursivePadding_calls first second 0 0 0 ([], [])) \<and>
        pf < length first \<and> ps < length second \<and> second ! ps \<noteq> first ! pf \<and>
        second ! ps \<noteq> DimInt 1 \<and> first ! pf \<noteq> DimInt 1"
  proof -
    from that have m: "(pf, ps, n, F, S) \<in> set (RecursivePadding_calls first second 0 0 0 ([], []))"
      by (rule conjunct1)
    have "GetPaddingVector first second = RecursivePadding first second pf ps n (F, S)"
      using GetPaddingVector_calls[OF m] by simp
    then show ?thesis using that by (simp add: RecursivePadding_mismatch)
  qed
  show "GetPaddingVector first second =
          (if \<forall>i. ps \<le> i \<and> i < length second \<longrightarrow> second ! i = DimInt 1
           then Inr (F @ map (\<lambda>j. n + int j) [0..<length second - ps], S)
           else Inl (EnforceFailed ''second[ps] must be '1' to padding.''))"
    if "(pf, ps, n, F, S) \<in> set (RecursivePadding_calls first second 0 0 0 ([], [])) \<and>
        pf = length first"
  proof -
    from that have m: "(pf, ps, n, F, S) \<in> set (RecursivePadding_calls first second 0 0 0 ([], []))"
      by (rule conjunct1)
    from that have p: "pf = length first" by (rule conjunct2)
    have b: "ps \<le> length second"
      and g: "GetPaddingVector first second = RecursivePadding first second pf ps n (F, S)"
      using GetPaddingVector_calls[OF m] by simp_all
    show ?thesis unfolding g p by (rule RecursivePadding_first_exhausted[OF b])
  qed
  show "GetPaddingVector first second =
          (if \<forall>i. pf \<le> i \<and> i < length first \<longrightarrow> first ! i = DimInt 1
           then Inr (F, S @ map (\<lambda>j. n + int j) [0..<length first - pf])
           else Inl (EnforceFailed ''second[ps] must be '1' to padding.''))"
    if "(pf, ps, n, F, S) \<in> set (RecursivePadding_calls first second 0 0 0 ([], [])) \<and>
        ps = length second"
  proof -
    from that have m: "(pf, ps, n, F, S) \<in> set (RecursivePadding_calls first second 0 0 0 ([], []))"
      by (rule conjunct1)
    from that have p: "ps = length second" by (rule conjunct2)
    have b: "pf \<le> length first"
      and g: "GetPaddingVector first second = RecursivePadding first second pf ps n (F, S)"
      using GetPaddingVector_calls[OF m] by simp_all
    show ?thesis unfolding g p by (rule RecursivePadding_second_exhausted[OF b])
  qed
  show "RecursivePadding first second pf ps n (F, S) =
        RecursivePadding first second pf (ps + 1) (n + 1) (F @ [n], S)"
    if "pf < length first \<and> ps < length second \<and> second ! ps \<noteq> first ! pf \<and>
        second ! ps = DimInt 1"
  proof -
    from that have a: "pf < length first" "ps < length second"
      "second ! ps \<noteq> first ! pf" "second ! ps = DimInt 1" by blast+
    show ?thesis by (rule RecursivePadding_unit_second_step[OF a])
  qed
  show "RecursivePadding first second pf ps n (F, S) =
        RecursivePadding first second (pf + 1) ps (n + 1) (F, S @ [n])"
    if "pf < length first \<and> ps < length second \<and> second ! ps \<noteq> first ! pf \<and>
        second ! ps \<noteq> DimInt 1 \<and> first ! pf = DimInt 1"
  proof -
    from that have a: "pf < length first" "ps < length second"
      "second ! ps \<noteq> first ! pf" "second ! ps \<noteq> DimInt 1" "first ! pf = DimInt 1"
      by blast+
    show ?thesis by (rule RecursivePadding_unit_first_step[OF a])
  qed
  show "length first + length F' = length second + length S'"
    if "GetPaddingVector first second = Inr (F', S')"
    using GetPaddingVector_aligned[OF that] unfolding aligned_from_def by blast
  show "insert_units 0 F' first (length first + length F') =
        insert_units 0 S' second (length second + length S')"
    if "GetPaddingVector first second = Inr (F', S')"
    using GetPaddingVector_aligned[OF that] unfolding aligned_from_def by blast
qed (simp_all add: RecursivePadding_equal_step RecursivePadding_mismatch
      RecursivePadding_first_exhausted RecursivePadding_second_exhausted)

theorem GetPaddingVector_two_pointer_witness:
  "RecursivePadding [DimInt 2] [DimInt 2] 0 0 0 ([], []) =
     RecursivePadding [DimInt 2] [DimInt 2] (0 + 1) (0 + 1) (0 + 1) ([], [])
   \<and> RecursivePadding [DimInt 3] [DimInt 1, DimInt 3] 0 0 0 ([], []) =
     RecursivePadding [DimInt 3] [DimInt 1, DimInt 3] 0 (0 + 1) (0 + 1) ([] @ [0], [])
   \<and> RecursivePadding [DimInt 1, DimInt 5] [DimInt 5] 0 0 0 ([], []) =
     RecursivePadding [DimInt 1, DimInt 5] [DimInt 5] (0 + 1) 0 (0 + 1) ([], [] @ [0])
   \<and> RecursivePadding [] [DimInt 1, DimInt 1] 0 0 0 ([], []) = Inr ([0, 1], [])
   \<and> RecursivePadding [DimInt 3] [] 0 0 0 ([], []) =
       Inl (EnforceFailed ''second[ps] must be '1' to padding.'')
   \<and> RecursivePadding [DimInt 4] [DimInt 5] 0 0 0 ([], []) =
       Inl (Thrown ''Padding Error.'')
   \<and> GetPaddingVector [DimInt 2, DimInt 4] [DimInt 2, DimInt 5] =
       Inl (Thrown ''Padding Error.'')
   \<and> GetPaddingVector [DimInt 2] [DimInt 2, DimInt 1] = Inr ([1], [])
   \<and> GetPaddingVector [DimInt 2, DimInt 1] [DimInt 2] = Inr ([], [1])
   \<and> insert_units 0 [1] [DimInt 2, DimInt 3] 3 =
       insert_units 0 [] [DimInt 2, DimInt 1, DimInt 3] 3"
proof -
  have m1: "(Suc 0, Suc 0, 1, [], []) \<in>
      set (RecursivePadding_calls [DimInt 2, DimInt 4] [DimInt 2, DimInt 5] 0 0 0 ([], []))"
    by (simp add: RecursivePadding_calls.simps)
  have m2: "(Suc 0, Suc 0, 1, [], []) \<in>
      set (RecursivePadding_calls [DimInt 2] [DimInt 2, DimInt 1] 0 0 0 ([], []))"
    by (simp add: RecursivePadding_calls.simps)
  have m3: "(Suc 0, Suc 0, 1, [], []) \<in>
      set (RecursivePadding_calls [DimInt 2, DimInt 1] [DimInt 2] 0 0 0 ([], []))"
    by (simp add: RecursivePadding_calls.simps)
  have w1: "RecursivePadding [DimInt 2] [DimInt 2] 0 0 0 ([], []) =
     RecursivePadding [DimInt 2] [DimInt 2] (0 + 1) (0 + 1) (0 + 1) ([], [])"
    using GetPaddingVector_two_pointer
            [where first = "[DimInt 2]" and second = "[DimInt 2]"
               and pf = 0 and ps = 0 and n = 0 and F = "[]" and S = "[]",
             THEN conjunct2, THEN conjunct2, THEN conjunct1]
    by simp
  have w2: "RecursivePadding [DimInt 3] [DimInt 1, DimInt 3] 0 0 0 ([], []) =
     RecursivePadding [DimInt 3] [DimInt 1, DimInt 3] 0 (0 + 1) (0 + 1) ([] @ [0], [])"
    using GetPaddingVector_two_pointer
            [where first = "[DimInt 3]" and second = "[DimInt 1, DimInt 3]"
               and pf = 0 and ps = 0 and n = 0 and F = "[]" and S = "[]",
             THEN conjunct2, THEN conjunct2, THEN conjunct2, THEN conjunct1]
    by simp
  have w3: "RecursivePadding [DimInt 1, DimInt 5] [DimInt 5] 0 0 0 ([], []) =
     RecursivePadding [DimInt 1, DimInt 5] [DimInt 5] (0 + 1) 0 (0 + 1) ([], [] @ [0])"
    using GetPaddingVector_two_pointer
            [where first = "[DimInt 1, DimInt 5]" and second = "[DimInt 5]"
               and pf = 0 and ps = 0 and n = 0 and F = "[]" and S = "[]",
             THEN conjunct2, THEN conjunct2, THEN conjunct2, THEN conjunct2, THEN conjunct1]
    by simp
  have w4: "RecursivePadding [] [DimInt 1, DimInt 1] 0 0 0 ([], []) = Inr ([0, 1], [])"
    using GetPaddingVector_two_pointer
            [where first = "[]" and second = "[DimInt 1, DimInt 1]"
               and pf = 0 and ps = 0 and n = 0 and F = "[]" and S = "[]",
             THEN conjunct2, THEN conjunct2, THEN conjunct2, THEN conjunct2,
             THEN conjunct2, THEN conjunct1]
    by (simp add: nth_Cons' upt_rec)
  have w5: "RecursivePadding [DimInt 3] [] 0 0 0 ([], []) =
       Inl (EnforceFailed ''second[ps] must be '1' to padding.'')"
    using GetPaddingVector_two_pointer
            [where first = "[DimInt 3]" and second = "[]"
               and pf = 0 and ps = 0 and n = 0 and F = "[]" and S = "[]",
             THEN conjunct2, THEN conjunct2, THEN conjunct2, THEN conjunct2,
             THEN conjunct2, THEN conjunct2, THEN conjunct1]
    by simp
  have w6: "RecursivePadding [DimInt 4] [DimInt 5] 0 0 0 ([], []) =
       Inl (Thrown ''Padding Error.'')"
    using GetPaddingVector_two_pointer
            [where first = "[DimInt 4]" and second = "[DimInt 5]"
               and pf = 0 and ps = 0 and n = 0 and F = "[]" and S = "[]",
             THEN conjunct2, THEN conjunct2, THEN conjunct2, THEN conjunct2,
             THEN conjunct2, THEN conjunct2, THEN conjunct2, THEN conjunct1]
    by simp
  have w7: "GetPaddingVector [DimInt 2, DimInt 4] [DimInt 2, DimInt 5] =
       Inl (Thrown ''Padding Error.'')"
    using GetPaddingVector_two_pointer
            [where first = "[DimInt 2, DimInt 4]" and second = "[DimInt 2, DimInt 5]"
               and pf = "Suc 0" and ps = "Suc 0" and n = 1 and F = "[]" and S = "[]",
             THEN conjunct2, THEN conjunct2, THEN conjunct2, THEN conjunct2,
             THEN conjunct2, THEN conjunct2, THEN conjunct2, THEN conjunct2,
             THEN conjunct2, THEN conjunct1] m1
    by simp
  have w8: "GetPaddingVector [DimInt 2] [DimInt 2, DimInt 1] = Inr ([1], [])"
    using GetPaddingVector_two_pointer
            [where first = "[DimInt 2]" and second = "[DimInt 2, DimInt 1]"
               and pf = "Suc 0" and ps = "Suc 0" and n = 1 and F = "[]" and S = "[]",
             THEN conjunct2, THEN conjunct2, THEN conjunct2, THEN conjunct2,
             THEN conjunct2, THEN conjunct2, THEN conjunct2, THEN conjunct2,
             THEN conjunct2, THEN conjunct2, THEN conjunct1] m2
    by (simp add: nth_Cons')
  have w9: "GetPaddingVector [DimInt 2, DimInt 1] [DimInt 2] = Inr ([], [1])"
    using GetPaddingVector_two_pointer
            [where first = "[DimInt 2, DimInt 1]" and second = "[DimInt 2]"
               and pf = "Suc 0" and ps = "Suc 0" and n = 1 and F = "[]" and S = "[]",
             THEN conjunct2, THEN conjunct2, THEN conjunct2, THEN conjunct2,
             THEN conjunct2, THEN conjunct2, THEN conjunct2, THEN conjunct2,
             THEN conjunct2, THEN conjunct2, THEN conjunct2, THEN conjunct1] m3
    by (simp add: nth_Cons')
  have w10: "insert_units 0 [1] [DimInt 2, DimInt 3] 3 =
       insert_units 0 [] [DimInt 2, DimInt 1, DimInt 3] 3"
    using GetPaddingVector_two_pointer
            [where first = "[DimInt 2, DimInt 3]" and second = "[DimInt 2, DimInt 1, DimInt 3]"
               and pf = 0 and ps = 0 and n = 0 and F = "[]" and S = "[]"
               and F' = "[1]" and S' = "[]",
             THEN conjunct2, THEN conjunct2, THEN conjunct2, THEN conjunct2,
             THEN conjunct2, THEN conjunct2, THEN conjunct2, THEN conjunct2,
             THEN conjunct2, THEN conjunct2, THEN conjunct2, THEN conjunct2]
          GetPaddingVector_two_pointer [THEN conjunct1]
    by (simp add: numeral_3_eq_3)
  show ?thesis using w1 w2 w3 w4 w5 w6 w7 w8 w9 w10 by (intro conjI)
qed

end
